theory Spec2Isabelle
  imports Complex_Main "HOL-Library.Log_Nat"
begin

section \<open>Currency codec: sanitising keystrokes\<close>

text \<open>
  Strings are lists of characters. The regular expression \<^verbatim>\<open>/[^0-9.]/g\<close> of
  \<^verbatim>\<open>parseCurrencyInput\<close> and \<^verbatim>\<open>safeParseFloat\<close> removes every character that is
  neither a decimal digit nor the point.
\<close>

definition is_digit :: "char \<Rightarrow> bool" where
  "is_digit c = (c \<in> set ''0123456789'')"

definition is_numeric_char :: "char \<Rightarrow> bool" where
  "is_numeric_char c = (is_digit c \<or> c = CHR ''.'')"

definition strip_non_numeric :: "string \<Rightarrow> string" where
  "strip_non_numeric input = filter is_numeric_char input"

text \<open>
  \<^verbatim>\<open>String.prototype.split('.')\<close>: the pieces between the points, in order; a string
  without a point is its own single piece, so the result is never empty.
\<close>

fun split_dot :: "string \<Rightarrow> string list" where
  "split_dot [] = [[]]"
| "split_dot (c # cs) =
     (if c = CHR ''.'' then [] # split_dot cs
      else (c # hd (split_dot cs)) # tl (split_dot cs))"

text \<open>
  \<^verbatim>\<open>parseCurrencyInput\<close> (the spec's sanitize). \<^verbatim>\<open>parts[1]\<close> is \<^verbatim>\<open>undefined\<close> when
  there is one piece, and the empty string is falsy, so the second test needs two pieces
  and a second piece of more than two characters.
\<close>

definition parseCurrencyInput :: "string \<Rightarrow> string" where
  "parseCurrencyInput input =
     (let numericString = strip_non_numeric input;
          parts = split_dot numericString
      in if length parts > 2 then hd parts @ ''.'' @ concat (tl parts)
         else if length parts = 2 \<and> length (parts ! 1) > 2
           then hd parts @ ''.'' @ take 2 (parts ! 1)
         else numericString)"

section \<open>Numbers\<close>

text \<open>
  A JavaScript Number is an IEEE 754 double. A finite double is the rational it
  denotes; the sign of zero is not kept, since nothing in the program tells the two
  zeros apart: \<^verbatim>\<open>||\<close> takes both as falsy, \<^verbatim>\<open>toFixed\<close> prints both as
  \<^verbatim>\<open>0.00\<close>, and the operands of \<^verbatim>\<open>calculateTotal\<close> carry no sign.
\<close>

datatype jsnum = Fin rat | PInf | NInf | NaN

fun jsneg :: "jsnum \<Rightarrow> jsnum" where
  "jsneg (Fin q) = Fin (- q)"
| "jsneg PInf = NInf"
| "jsneg NInf = PInf"
| "jsneg NaN = NaN"

definition pow2 :: "int \<Rightarrow> rat" where
  "pow2 e = (if 0 \<le> e then 2 ^ nat e else 1 / 2 ^ nat (- e))"

definition pow10 :: "int \<Rightarrow> rat" where
  "pow10 e = (if 0 \<le> e then 10 ^ nat e else 1 / 10 ^ nat (- e))"

text \<open>
  The binade of a positive rational \<open>q\<close>: the integer \<open>g\<close> with
  \<open>2 ^ g \<le> q < 2 ^ (g + 1)\<close>. From 1 on it is one less than the number of bits of
  the integer part; below 1 it is read off the reciprocal.
\<close>

definition binade :: "rat \<Rightarrow> int" where
  "binade q =
     (if 1 \<le> q then int (floorlog 2 (nat \<lfloor>q\<rfloor>)) - 1
      else - int (ceillog2 (nat \<lceil>1 / q\<rceil>)))"

definition round_half_even :: "rat \<Rightarrow> int" where
  "round_half_even q =
     (let f = \<lfloor>q\<rfloor>; r = q - of_int f
      in if r < 1 / 2 then f
         else if 1 / 2 < r then f + 1
         else if even f then f else f + 1)"

text \<open>
  Rounding a positive rational to the nearest double, ties to even: a 53-bit
  significand, the least exponent \<open>-1074\<close> (below it the value is subnormal or
  rounds to zero), and overflow to infinity from \<open>2 ^ 1024\<close> on.
\<close>

definition round_double_pos :: "rat \<Rightarrow> jsnum" where
  "round_double_pos q =
     (let e = max (binade q - 52) (- 1074);
          r = of_int (round_half_even (q / pow2 e)) * pow2 e
      in if pow2 1024 \<le> r then PInf else Fin r)"

definition round_double :: "rat \<Rightarrow> jsnum" where
  "round_double q =
     (if q = 0 then Fin 0
      else if 0 < q then round_double_pos q
      else jsneg (round_double_pos (- q)))"

text \<open>Addition and subtraction of Numbers: the exact result, rounded.\<close>

fun jsadd :: "jsnum \<Rightarrow> jsnum \<Rightarrow> jsnum" where
  "jsadd (Fin a) (Fin b) = round_double (a + b)"
| "jsadd NaN y = NaN"
| "jsadd x NaN = NaN"
| "jsadd PInf NInf = NaN"
| "jsadd NInf PInf = NaN"
| "jsadd PInf y = PInf"
| "jsadd NInf y = NInf"
| "jsadd x PInf = PInf"
| "jsadd x NInf = NInf"

definition jssub :: "jsnum \<Rightarrow> jsnum \<Rightarrow> jsnum" where
  "jssub x y = jsadd x (jsneg y)"

text \<open>The comparison \<^verbatim>\<open>x < y\<close>: false as soon as one side is NaN.\<close>

fun jslt :: "jsnum \<Rightarrow> jsnum \<Rightarrow> bool" where
  "jslt (Fin a) (Fin b) = (a < b)"
| "jslt NaN y = False"
| "jslt x NaN = False"
| "jslt x NInf = False"
| "jslt PInf y = False"
| "jslt NInf y = True"
| "jslt x PInf = True"

definition isNaN :: "jsnum \<Rightarrow> bool" where
  "isNaN x = (x = NaN)"

text \<open>\<^verbatim>\<open>x || 0\<close>: NaN and zero are the falsy Numbers.\<close>

definition or_zero :: "jsnum \<Rightarrow> jsnum" where
  "or_zero x = (if x = NaN \<or> x = Fin 0 then Fin 0 else x)"

section \<open>Reading and printing Numbers\<close>

definition digit_val :: "char \<Rightarrow> nat" where
  "digit_val c = of_char c - 48"

definition digit_char :: "nat \<Rightarrow> char" where
  "digit_char d = ''0123456789'' ! d"

definition nat_of_digits :: "string \<Rightarrow> nat" where
  "nat_of_digits ds = foldl (\<lambda>n c. 10 * n + digit_val c) 0 ds"

fun show_nat :: "nat \<Rightarrow> string" where
  "show_nat n =
     (if n < 10 then [digit_char n] else show_nat (n div 10) @ [digit_char (n mod 10)])"

declare show_nat.simps [simp del]

definition is_js_space :: "char \<Rightarrow> bool" where
  "is_js_space c = (of_char c \<in> {9, 10, 11, 12, 13, 32 :: nat})"

text \<open>
  \<^verbatim>\<open>parseFloat\<close> skips leading white space (here the ASCII one), reads the longest
  prefix that is a \<^verbatim>\<open>StrDecimalLiteral\<close> (a sign, then \<^verbatim>\<open>Infinity\<close> or digits
  with an optional fraction and an optional exponent) and rounds its value to the
  nearest double; with no such prefix the result is NaN. An exponent counts only when
  a digit follows it.
\<close>

definition parse_exponent :: "string \<Rightarrow> int" where
  "parse_exponent r =
     (case r of
        [] \<Rightarrow> 0
      | c # r1 \<Rightarrow>
          if c = CHR ''e'' \<or> c = CHR ''E'' then
            (case r1 of
               [] \<Rightarrow> 0
             | s # r2 \<Rightarrow>
                 if s = CHR ''-'' then - int (nat_of_digits (takeWhile is_digit r2))
                 else if s = CHR ''+'' then int (nat_of_digits (takeWhile is_digit r2))
                 else int (nat_of_digits (takeWhile is_digit r1)))
          else 0)"

definition parse_unsigned :: "string \<Rightarrow> jsnum" where
  "parse_unsigned s =
     (if take 8 s = ''Infinity'' then PInf
      else
        let ip = takeWhile is_digit s;
            r1 = dropWhile is_digit s;
            has_dot = (r1 \<noteq> [] \<and> hd r1 = CHR ''.'');
            fp = (if has_dot then takeWhile is_digit (tl r1) else []);
            r2 = (if has_dot then dropWhile is_digit (tl r1) else r1)
        in if ip = [] \<and> fp = [] then NaN
           else round_double
                  ((of_nat (nat_of_digits ip) + of_nat (nat_of_digits fp) / 10 ^ length fp)
                   * pow10 (parse_exponent r2)))"

definition parseFloat :: "string \<Rightarrow> jsnum" where
  "parseFloat s =
     (case dropWhile is_js_space s of
        [] \<Rightarrow> NaN
      | c # r \<Rightarrow>
          if c = CHR ''-'' then jsneg (parse_unsigned r)
          else if c = CHR ''+'' then parse_unsigned r
          else parse_unsigned (c # r))"

text \<open>
  \<^verbatim>\<open>Number::toString\<close> for a double \<open>x\<close> of at least \<open>10 ^ 21\<close> (an integer): the
  least number \<open>k\<close> of digits with an integer \<open>s\<close> of \<open>k\<close> digits and an \<open>n\<close> such
  that \<open>s * 10 ^ (n - k)\<close> rounds to \<open>x\<close>; among these the one nearest to \<open>x\<close>, an
  even \<open>s\<close> on a tie. With \<open>d\<close> the number of digits of \<open>x\<close>, only \<open>n = d\<close> and
  \<open>n = d + 1\<close> and the two multiples of \<open>10 ^ (n - k)\<close> around \<open>x\<close> can be nearest;
  \<open>k = d\<close> always does, with the digits of \<open>x\<close> itself.
\<close>

definition digit_candidates :: "rat \<Rightarrow> nat \<Rightarrow> nat \<Rightarrow> (nat \<times> nat) list" where
  "digit_candidates x d k =
     [(s, n). n \<leftarrow> [d, d + 1],
              s \<leftarrow> [nat \<lfloor>x / 10 ^ (n - k)\<rfloor>, nat \<lfloor>x / 10 ^ (n - k)\<rfloor> + 1],
              10 ^ (k - 1) \<le> s \<and> s < 10 ^ k \<and> round_double (of_nat s * 10 ^ (n - k)) = Fin x]"

definition nearer :: "rat \<Rightarrow> nat \<Rightarrow> nat \<times> nat \<Rightarrow> nat \<times> nat \<Rightarrow> bool" where
  "nearer x k c c' =
     (let a = \<bar>of_nat (fst c) * 10 ^ (snd c - k) - x\<bar>;
          b = \<bar>of_nat (fst c') * 10 ^ (snd c' - k) - x\<bar>
      in a < b \<or> (a = b \<and> even (fst c)))"

fun closest :: "rat \<Rightarrow> nat \<Rightarrow> (nat \<times> nat) list \<Rightarrow> (nat \<times> nat) option" where
  "closest x k [] = None"
| "closest x k (c # cs) =
     (case closest x k cs of
        None \<Rightarrow> Some c
      | Some c' \<Rightarrow> if nearer x k c c' then Some c else Some c')"

function shortest_digits :: "rat \<Rightarrow> nat \<Rightarrow> nat \<Rightarrow> nat \<times> nat \<times> nat" where
  "shortest_digits x d k =
     (if d \<le> k then (nat \<lfloor>x\<rfloor>, d, d)
      else case closest x k (digit_candidates x d k) of
             Some (s, n) \<Rightarrow> (s, k, n)
           | None \<Rightarrow> shortest_digits x d (Suc k))"
  by pat_completeness auto
termination
  by (relation "measure (\<lambda>(x, d, k). d - k)") auto

declare shortest_digits.simps [simp del]

text \<open>The exponent \<open>n - 1\<close> is above 20 here, so the notation is exponential.\<close>

definition number_to_string_exp :: "rat \<Rightarrow> string" where
  "number_to_string_exp x =
     (case shortest_digits x (length (show_nat (nat \<lfloor>x\<rfloor>))) 1 of
        (s, k, n) \<Rightarrow>
          (if k = 1 then show_nat s
           else hd (show_nat s) # CHR ''.'' # tl (show_nat s))
          @ ''e+'' @ show_nat (n - 1))"

text \<open>
  \<^verbatim>\<open>Number.prototype.toFixed(f)\<close>. Below \<open>10 ^ 21\<close> the digits are those of the
  integer \<open>n\<close> nearest to \<open>x * 10 ^ f\<close>, the larger on a tie, padded with zeros to
  \<open>f + 1\<close> digits and with the point before the last \<open>f\<close>.
\<close>

definition fixed_point :: "nat \<Rightarrow> nat \<Rightarrow> string" where
  "fixed_point f n =
     (let m = show_nat n;
          m' = (if length m \<le> f then replicate (f + 1 - length m) CHR ''0'' @ m else m)
      in if f = 0 then m
         else take (length m' - f) m' @ ''.'' @ drop (length m' - f) m')"

definition toFixed :: "nat \<Rightarrow> jsnum \<Rightarrow> string" where
  "toFixed f x =
     (case x of
        NaN \<Rightarrow> ''NaN''
      | PInf \<Rightarrow> ''Infinity''
      | NInf \<Rightarrow> ''-Infinity''
      | Fin q \<Rightarrow>
          (if q < 0 then ''-'' else [])
          @ (if 10 ^ 21 \<le> \<bar>q\<bar> then number_to_string_exp \<bar>q\<bar>
             else fixed_point f (nat \<lfloor>\<bar>q\<bar> * 10 ^ f + 1 / 2\<rfloor>)))"

text \<open>
  \<^verbatim>\<open>toLocaleString('en-US', { style: 'currency', currency: 'USD' })\<close>. The engine
  formats the shortest decimal that reads back as the double, the one whose digits
  \<^verbatim>\<open>Number::toString\<close> prints (so \<^verbatim>\<open>1.005\<close> counts as 1.005, and a large double as
  its 17 digits at most followed by zeros), rounds it to cents, half away from zero,
  and writes the integer digits in groups of three, a minus sign before the dollar
  sign. The infinity sign \<^verbatim>\<open>U+221E\<close> is written as its three UTF-8 bytes.

  The decade of a positive rational \<open>x\<close> is the integer \<open>n\<close> with
  \<open>10 ^ (n - 1) \<le> x < 10 ^ n\<close>. The shortest decimal of a double \<open>x\<close> has the least
  number \<open>k\<close> of digits with an integer \<open>s\<close> of \<open>k\<close> digits and an \<open>n\<close> such that
  \<open>s * 10 ^ (n - k)\<close> rounds to \<open>x\<close>; among these it is the one nearest to \<open>x\<close>.
  Seventeen digits tell any two doubles apart, so the search ends by \<open>k = 17\<close>.
\<close>

definition decade :: "rat \<Rightarrow> int" where
  "decade x =
     (if 1 \<le> x then int (floorlog 10 (nat \<lfloor>x\<rfloor>))
      else 1 - int (floorlog 10 (nat \<lceil>1 / x\<rceil> - 1)))"

definition decimal_candidates :: "rat \<Rightarrow> int \<Rightarrow> nat \<Rightarrow> (nat \<times> int) list" where
  "decimal_candidates x d k =
     [(s, n). n \<leftarrow> [d, d + 1],
              s \<leftarrow> [nat \<lfloor>x / pow10 (n - int k)\<rfloor>, nat \<lfloor>x / pow10 (n - int k)\<rfloor> + 1],
              10 ^ (k - 1) \<le> s \<and> s < 10 ^ k
              \<and> round_double (of_nat s * pow10 (n - int k)) = Fin x]"

definition nearer_decimal :: "rat \<Rightarrow> nat \<Rightarrow> nat \<times> int \<Rightarrow> nat \<times> int \<Rightarrow> bool" where
  "nearer_decimal x k c c' =
     (let a = \<bar>of_nat (fst c) * pow10 (snd c - int k) - x\<bar>;
          b = \<bar>of_nat (fst c') * pow10 (snd c' - int k) - x\<bar>
      in a < b \<or> (a = b \<and> even (fst c)))"

fun closest_decimal :: "rat \<Rightarrow> nat \<Rightarrow> (nat \<times> int) list \<Rightarrow> (nat \<times> int) option" where
  "closest_decimal x k [] = None"
| "closest_decimal x k (c # cs) =
     (case closest_decimal x k cs of
        None \<Rightarrow> Some c
      | Some c' \<Rightarrow> if nearer_decimal x k c c' then Some c else Some c')"

function shortest_search :: "rat \<Rightarrow> int \<Rightarrow> nat \<Rightarrow> rat" where
  "shortest_search x d k =
     (case closest_decimal x k (decimal_candidates x d k) of
        Some (s, n) \<Rightarrow> of_nat s * pow10 (n - int k)
      | None \<Rightarrow> if 17 \<le> k then x else shortest_search x d (Suc k))"
  by pat_completeness auto
termination
  by (relation "measure (\<lambda>(x, d, k). 17 - k)") auto

declare shortest_search.simps [simp del]

definition shortest_decimal :: "rat \<Rightarrow> rat" where
  "shortest_decimal x = (if x = 0 then 0 else shortest_search x (decade x) 1)"

fun group3_rev :: "string \<Rightarrow> string" where
  "group3_rev (a # b # c # d # ds) = a # b # c # CHR '','' # group3_rev (d # ds)"
| "group3_rev ds = ds"

definition group3 :: "string \<Rightarrow> string" where
  "group3 ds = rev (group3_rev (rev ds))"

definition infinity_sign :: string where
  "infinity_sign = [CHR 0xE2, CHR 0x88, CHR 0x9E]"

definition toLocaleCurrency :: "jsnum \<Rightarrow> string" where
  "toLocaleCurrency x =
     (case x of
        NaN \<Rightarrow> ''$NaN''
      | PInf \<Rightarrow> ''$'' @ infinity_sign
      | NInf \<Rightarrow> ''-$'' @ infinity_sign
      | Fin q \<Rightarrow>
          (let m = fixed_point 2 (nat \<lfloor>shortest_decimal \<bar>q\<bar> * 100 + 1 / 2\<rfloor>)
           in (if q < 0 then ''-'' else []) @ ''$''
              @ group3 (take (length m - 3) m) @ drop (length m - 3) m))"

section \<open>The form\<close>

text \<open>
  \<^verbatim>\<open>(parseFloat(currentValue) || 0).toFixed(2)\<close>, the first step of \<^verbatim>\<open>handleBlur\<close>
  (the spec's commitFormat).
\<close>

definition commitFormat :: "string \<Rightarrow> string" where
  "commitFormat currentValue = toFixed 2 (or_zero (parseFloat currentValue))"

datatype key = SalesPrice | DownPayment | Warranty | Cpi | Gap

record field =
  val :: string
  isSaving :: bool
  hasError :: bool

definition safeParseFloat :: "string \<Rightarrow> jsnum" where
  "safeParseFloat str =
     (let num = parseFloat (strip_non_numeric str) in if isNaN num then Fin 0 else num)"

definition total_sum :: "(key \<Rightarrow> field) \<Rightarrow> jsnum" where
  "total_sum currentFields =
     jsadd (jsadd (jsadd (jssub (safeParseFloat (val (currentFields SalesPrice)))
                                (safeParseFloat (val (currentFields DownPayment))))
                         (safeParseFloat (val (currentFields Warranty))))
                  (safeParseFloat (val (currentFields Cpi))))
           (safeParseFloat (val (currentFields Gap)))"

definition calculateTotal :: "(key \<Rightarrow> field) \<Rightarrow> string" where
  "calculateTotal currentFields = toLocaleCurrency (total_sum currentFields)"

text \<open>
  In the records below \<open>val\<close> is the \<^verbatim>\<open>value\<close> of a field and \<open>fields_state\<close> the
  state variable \<^verbatim>\<open>fields\<close>; \<open>total_sum\<close> above is the local \<^verbatim>\<open>total\<close> of
  \<^verbatim>\<open>calculateTotal\<close>.

  The state of \<^verbatim>\<open>DealStructure\<close>: the five fields, the one \<^verbatim>\<open>originalValueRef\<close>
  (\<^verbatim>\<open>null\<close> until the first focus), the total shown, and the saves in flight. A save in
  flight is a call of \<^verbatim>\<open>handleBlur\<close> suspended at its \<^verbatim>\<open>await\<close>, holding its
  \<^verbatim>\<open>key\<close> and its \<^verbatim>\<open>formattedValue\<close>; every timer runs 1500 ms, so the saves
  resume in the order they were issued.
\<close>

record form =
  fields_state :: "key \<Rightarrow> field"
  originalValueRef :: "string option"
  amountFinanced :: string
  pending :: "(key \<times> string) list"

definition initialFields :: "key \<Rightarrow> field" where
  "initialFields k =
     \<lparr>val = (case k of SalesPrice \<Rightarrow> ''27537.00'' | DownPayment \<Rightarrow> ''2500.00''
                     | Warranty \<Rightarrow> ''0.00'' | Cpi \<Rightarrow> ''0.00'' | Gap \<Rightarrow> ''0.00''),
      isSaving = False, hasError = False\<rparr>"

definition initialForm :: form where
  "initialForm =
     \<lparr>fields_state = initialFields, originalValueRef = None,
      amountFinanced = calculateTotal initialFields, pending = []\<rparr>"

definition handleFocus :: "key \<Rightarrow> form \<Rightarrow> form" where
  "handleFocus k st = st\<lparr>originalValueRef := Some (val (fields_state st k))\<rparr>"

definition handleFieldChange :: "key \<Rightarrow> string \<Rightarrow> form \<Rightarrow> form" where
  "handleFieldChange k input st =
     st\<lparr>fields_state := (fields_state st)
           (k := (fields_state st k)\<lparr>val := parseCurrencyInput input, hasError := False\<rparr>)\<rparr>"

text \<open>
  \<^verbatim>\<open>handleBlur\<close> up to its \<^verbatim>\<open>await\<close>: the early return when the formatted value is
  the one recorded at focus, otherwise the field is marked as saving and the save is
  issued.
\<close>

definition handleBlur :: "key \<Rightarrow> form \<Rightarrow> form" where
  "handleBlur k st =
     (let currentValue = val (fields_state st k);
          formattedValue = commitFormat currentValue
      in if Some formattedValue = originalValueRef st then
           (if currentValue \<noteq> formattedValue
            then st\<lparr>fields_state := (fields_state st)(k := (fields_state st k)\<lparr>val := formattedValue\<rparr>)\<rparr>
            else st)
         else st\<lparr>fields_state := (fields_state st)
                   (k := (fields_state st k)\<lparr>val := formattedValue, isSaving := True,
                                         hasError := False\<rparr>),
                 pending := pending st @ [(k, formattedValue)]\<rparr>)"

text \<open>The body of the \<^verbatim>\<open>try\<close> after the delay: the two \<^verbatim>\<open>throw\<close>s, as errors.\<close>

datatype save_error = InvalidNumber | BelowMinimum

definition save :: "key \<Rightarrow> string \<Rightarrow> save_error + unit" where
  "save k formattedValue =
     (let numericValue = parseFloat formattedValue
      in if isNaN numericValue then Inl InvalidNumber
         else if k = SalesPrice \<and> jslt numericValue (Fin 10000) then Inl BelowMinimum
         else Inr ())"

text \<open>
  \<^verbatim>\<open>handleBlur\<close> after its \<^verbatim>\<open>await\<close>, for the oldest save in flight: on success the
  flags of the field are cleared and the total is computed from the fields as they are
  then; the \<^verbatim>\<open>catch\<close> branch writes the formatted value back and sets the error flag.
\<close>

definition resolve :: "form \<Rightarrow> form" where
  "resolve st =
     (case pending st of
        [] \<Rightarrow> st
      | (k, formattedValue) # rest \<Rightarrow>
          (case save k formattedValue of
             Inr _ \<Rightarrow>
               (let updatedFields = (fields_state st)
                      (k := (fields_state st k)\<lparr>isSaving := False, hasError := False\<rparr>)
                in st\<lparr>fields_state := updatedFields,
                      amountFinanced := calculateTotal updatedFields,
                      pending := rest\<rparr>)
           | Inl err \<Rightarrow>
               st\<lparr>fields_state := (fields_state st)
                     (k := (fields_state st k)\<lparr>val := formattedValue, isSaving := False,
                                           hasError := True\<rparr>),
                  pending := rest\<rparr>))"

text \<open>
  The events of the form. Each handler sees the state left by all earlier ones: React
  renders again between two events.
\<close>

datatype event = Focus key | Change key string | Blur key | Resolve

fun step :: "event \<Rightarrow> form \<Rightarrow> form" where
  "step (Focus k) st = handleFocus k st"
| "step (Change k input) st = handleFieldChange k input st"
| "step (Blur k) st = handleBlur k st"
| "step Resolve st = resolve st"

definition run :: "event list \<Rightarrow> form \<Rightarrow> form" where
  "run evs st = foldl (\<lambda>s e. step e s) st evs"

section \<open>Vocabulary of the properties\<close>

definition is_focus :: "event \<Rightarrow> bool" where
  "is_focus e = (case e of Focus k \<Rightarrow> True | _ \<Rightarrow> False)"

definition count_points :: "string \<Rightarrow> nat" where
  "count_points s = length (filter (\<lambda>c. c = CHR ''.'') s)"

text \<open>What follows the first point of a string (nothing when there is no point).\<close>

definition after_point :: "string \<Rightarrow> string" where
  "after_point s = tl (dropWhile (\<lambda>c. c \<noteq> CHR ''.'') s)"

text \<open>The regular expression \<^verbatim>\<open>^\d+\.\d{2}$\<close>.\<close>

definition matches_fixed2 :: "string \<Rightarrow> bool" where
  "matches_fixed2 s =
     (3 < length s \<and> list_all is_digit (take (length s - 3) s)
      \<and> s ! (length s - 3) = CHR ''.''
      \<and> is_digit (s ! (length s - 2)) \<and> is_digit (s ! (length s - 1)))"


text \<open>A Number that is neither NaN nor negative.\<close>

definition nonneg_num :: "jsnum \<Rightarrow> bool" where
  "nonneg_num x = (case x of Fin q \<Rightarrow> 0 \<le> q | PInf \<Rightarrow> True | _ \<Rightarrow> False)"

text \<open>The number of cents nearest to a magnitude, the larger on a tie.\<close>

definition cents :: "rat \<Rightarrow> nat" where
  "cents q = nat \<lfloor>\<bar>q\<bar> * 100 + 1 / 2\<rfloor>"

definition with_values :: "string \<Rightarrow> string \<Rightarrow> string \<Rightarrow> string \<Rightarrow> string \<Rightarrow> key \<Rightarrow> field" where
  "with_values sp dp w c g k =
     \<lparr>val = (case k of SalesPrice \<Rightarrow> sp | DownPayment \<Rightarrow> dp | Warranty \<Rightarrow> w
                     | Cpi \<Rightarrow> c | Gap \<Rightarrow> g),
      isSaving = False, hasError = False\<rparr>"

text \<open>
  Scenario B of the spec: the sales price is set to \<^verbatim>\<open>9999\<close> and left, and the save
  comes back. Then the warranty is set to \<^verbatim>\<open>500\<close> and saved.
\<close>

definition scenarioB_blurred :: form where
  "scenarioB_blurred =
     run [Focus SalesPrice, Change SalesPrice ''9999'', Blur SalesPrice] initialForm"

definition scenarioB :: form where
  "scenarioB = step Resolve scenarioB_blurred"

definition scenarioB_warranty_blurred :: form where
  "scenarioB_warranty_blurred =
     run [Focus Warranty, Change Warranty ''500'', Blur Warranty] scenarioB"

text \<open>
  The order in which a browser delivers focus and blur: a field gets the focus only
  when no field has it, and the field that loses it is the one that has it. Changes and
  saves coming back may fall anywhere. The first argument is the field that has the
  focus at the start, if any.
\<close>

fun focus_order :: "key option \<Rightarrow> event list \<Rightarrow> bool" where
  "focus_order f [] = True"
| "focus_order f (Focus k # evs) = (f = None \<and> focus_order (Some k) evs)"
| "focus_order f (Blur k # evs) = (f = Some k \<and> focus_order None evs)"
| "focus_order f (Change k input # evs) = focus_order f evs"
| "focus_order f (Resolve # evs) = focus_order f evs"

fun focused_after :: "key option \<Rightarrow> event list \<Rightarrow> key option" where
  "focused_after f [] = f"
| "focused_after f (Focus k # evs) = focused_after (Some k) evs"
| "focused_after f (Blur k # evs) = focused_after None evs"
| "focused_after f (Change k input # evs) = focused_after f evs"
| "focused_after f (Resolve # evs) = focused_after f evs"

text \<open>
  Following the spec's words: every field has a \<^verbatim>\<open>snapshotOnFocus\<close> of its own, which
  a focus on that field sets to the value the field shows then and which no other
  event touches. \<open>spec_snapshots\<close> carries these snapshots along a run of the form.
\<close>

definition spec_onFocus ::
    "event \<Rightarrow> form \<Rightarrow> (key \<Rightarrow> string option) \<Rightarrow> key \<Rightarrow> string option" where
  "spec_onFocus e st snapshotOnFocus =
     (case e of
        Focus k \<Rightarrow> snapshotOnFocus(k \<mapsto> val (fields_state st k))
      | _ \<Rightarrow> snapshotOnFocus)"

fun spec_snapshots ::
    "event list \<Rightarrow> form \<Rightarrow> (key \<Rightarrow> string option) \<Rightarrow> key \<Rightarrow> string option" where
  "spec_snapshots [] st snapshotOnFocus = snapshotOnFocus"
| "spec_snapshots (e # evs) st snapshotOnFocus =
     spec_snapshots evs (step e st) (spec_onFocus e st snapshotOnFocus)"

text \<open>
  An event is an accepted save when it is a save coming back and the \<^verbatim>\<open>try\<close> block
  runs through; a run is free of accepted saves when none of its events is one, each
  looked at in the state it meets.
\<close>

fun accepted :: "event \<Rightarrow> form \<Rightarrow> bool" where
  "accepted Resolve st =
     (case pending st of [] \<Rightarrow> False | (k, formattedValue) # rest \<Rightarrow> save k formattedValue = Inr ())"
| "accepted e st = False"

fun no_accept :: "event list \<Rightarrow> form \<Rightarrow> bool" where
  "no_accept [] st = True"
| "no_accept (e # evs) st = (\<not> accepted e st \<and> no_accept evs (step e st))"

section \<open>Evaluation\<close>

lemma floor_rat_numeral_div [simp]:
  "\<lfloor>numeral a / numeral b :: rat\<rfloor> = numeral a div numeral b"
  using floor_divide_of_int_eq [of "numeral a" "numeral b", where ?'a = rat] by simp

lemma ceiling_rat_numeral_div [simp]:
  "\<lceil>numeral a / numeral b :: rat\<rceil> = - (- numeral a div numeral b)"
  using floor_divide_of_int_eq [of "- numeral a" "numeral b", where ?'a = rat]
  by (simp add: ceiling_def)

lemmas round_eval =
  round_double_def round_double_pos_def binade_def compute_floorlog ceillog2_code
  ceillog2_aux.simps pow2_def round_half_even_def Let_def

lemmas parse_eval =
  parseFloat_def parse_unsigned_def parse_exponent_def is_js_space_def is_digit_def
  nat_of_digits_def digit_val_def pow10_def

lemmas print_eval =
  toFixed_def fixed_point_def show_nat.simps digit_char_def toLocaleCurrency_def
  group3_def

lemmas shortest_eval =
  shortest_decimal_def shortest_search.simps decimal_candidates_def nearer_decimal_def
  decade_def pow10_def

lemmas sanitize_eval =
  parseCurrencyInput_def strip_non_numeric_def is_numeric_char_def is_digit_def

lemmas total_eval =
  calculateTotal_def total_sum_def safeParseFloat_def isNaN_def jssub_def
  strip_non_numeric_def is_numeric_char_def

lemma commitFormat_9999: "commitFormat ''9999'' = ''9999.00''"
  by (simp add: commitFormat_def or_zero_def parse_eval round_eval print_eval)

lemma commitFormat_9999_00: "commitFormat ''9999.00'' = ''9999.00''"
  by (simp add: commitFormat_def or_zero_def parse_eval round_eval print_eval)

lemma commitFormat_500: "commitFormat ''500'' = ''500.00''"
  by (simp add: commitFormat_def or_zero_def parse_eval round_eval print_eval)

lemma commitFormat_27537_00: "commitFormat ''27537.00'' = ''27537.00''"
  by (simp add: commitFormat_def or_zero_def parse_eval round_eval print_eval)

lemma save_9999: "save SalesPrice ''9999.00'' = Inl BelowMinimum"
  by (simp add: save_def isNaN_def parse_eval round_eval)

lemma save_500: "save Warranty ''500.00'' = Inr ()"
  by (simp add: save_def isNaN_def parse_eval round_eval)

lemma sanitize_9999: "parseCurrencyInput ''9999'' = ''9999''"
  by (simp add: sanitize_eval)

lemma sanitize_500: "parseCurrencyInput ''500'' = ''500''"
  by (simp add: sanitize_eval)

lemma initial_total: "calculateTotal initialFields = ''$25,037.00''"
  by (simp add: total_eval initialFields_def parse_eval round_eval print_eval shortest_eval)

section \<open>Sanitising\<close>

lemma split_dot_nonempty: "split_dot s \<noteq> []"
  by (induction s) auto

section \<open>Runs of the form\<close>

lemma form_initial [simp]:
  "fields_state initialForm = initialFields" "pending initialForm = []"
  "originalValueRef initialForm = None" "amountFinanced initialForm = ''$25,037.00''"
  by (simp_all add: initialForm_def initial_total)

lemma run_Nil [simp]: "run [] st = st"
  by (simp add: run_def)

lemma run_Cons [simp]: "run (e # evs) st = run evs (step e st)"
  by (simp add: run_def)

lemma run_append [simp]: "run (evs @ evs') st = run evs' (run evs st)"
  by (simp add: run_def)

lemmas handler_defs =
  handleFocus_def handleFieldChange_def handleBlur_def resolve_def Let_def

lemma scenarioB_blurred_eq:
  "scenarioB_blurred =
     \<lparr>fields_state = initialFields
        (SalesPrice := \<lparr>val = ''9999.00'', isSaving = True, hasError = False\<rparr>),
      originalValueRef = Some ''27537.00'', amountFinanced = ''$25,037.00'',
      pending = [(SalesPrice, ''9999.00'')]\<rparr>"
  by (simp add: scenarioB_blurred_def handler_defs initialForm_def initial_total
      initialFields_def sanitize_9999 commitFormat_9999)

lemma scenarioB_eq:
  "scenarioB =
     \<lparr>fields_state = initialFields
        (SalesPrice := \<lparr>val = ''9999.00'', isSaving = False, hasError = True\<rparr>),
      originalValueRef = Some ''27537.00'', amountFinanced = ''$25,037.00'',
      pending = []\<rparr>"
  by (simp add: scenarioB_def scenarioB_blurred_eq handler_defs save_9999)

lemma scenarioB_warranty_blurred_eq:
  "scenarioB_warranty_blurred =
     \<lparr>fields_state = initialFields
        (SalesPrice := \<lparr>val = ''9999.00'', isSaving = False, hasError = True\<rparr>,
         Warranty := \<lparr>val = ''500.00'', isSaving = True, hasError = False\<rparr>),
      originalValueRef = Some ''0.00'', amountFinanced = ''$25,037.00'',
      pending = [(Warranty, ''500.00'')]\<rparr>"
  by (simp add: scenarioB_warranty_blurred_def scenarioB_eq handler_defs
      initialFields_def sanitize_500 commitFormat_500)

lemma total_after_warranty:
  "calculateTotal (initialFields
        (SalesPrice := \<lparr>val = ''9999.00'', isSaving = False, hasError = True\<rparr>,
         Warranty := \<lparr>val = ''500.00'', isSaving = False, hasError = False\<rparr>))
   = ''$7,999.00''"
  by (simp add: total_eval initialFields_def parse_eval round_eval print_eval shortest_eval)

lemma total_while_saving:
  "calculateTotal (initialFields
        (SalesPrice := \<lparr>val = ''9999.00'', isSaving = True, hasError = False\<rparr>,
         Warranty := \<lparr>val = ''500.00'', isSaving = False, hasError = False\<rparr>))
   = ''$7,999.00''"
  by (simp add: total_eval initialFields_def parse_eval round_eval print_eval shortest_eval)

lemma total_committed:
  "calculateTotal (with_values ''27537.00'' ''2500.00'' ''500.00'' ''0.00'' ''0.00'')
   = ''$25,537.00''"
  by (simp add: total_eval with_values_def parse_eval round_eval print_eval shortest_eval)

section \<open>The value recorded at focus\<close>

lemma originalValueRef_step:
  "\<not> is_focus e \<Longrightarrow> originalValueRef (step e st) = originalValueRef st"
  by (cases e)
     (auto simp: is_focus_def handler_defs split: list.splits sum.splits prod.splits)

lemma originalValueRef_run:
  "\<not> list_ex is_focus evs \<Longrightarrow> originalValueRef (run evs st) = originalValueRef st"
  by (induction evs arbitrary: st) (simp_all add: originalValueRef_step)

lemma snapshot_invariant:
  "focus_order f evs \<Longrightarrow> (\<forall>j. f = Some j \<longrightarrow> originalValueRef st = sn j) \<Longrightarrow>
     (\<forall>j. focused_after f evs = Some j \<longrightarrow>
        originalValueRef (run evs st) = spec_snapshots evs st sn j)"
proof (induction evs arbitrary: f st sn)
  case Nil
  then show ?case by simp
next
  case (Cons e evs)
  show ?case
  proof (cases e)
    case (Focus k)
    then have o: "focus_order (Some k) evs" using Cons.prems(1) by simp
    have "\<forall>j. Some k = Some j \<longrightarrow>
        originalValueRef (step e st) = spec_onFocus e st sn j"
      using Focus by (simp add: handleFocus_def spec_onFocus_def)
    then show ?thesis
      using Cons.IH [OF o, of "step e st" "spec_onFocus e st sn"] Focus by simp
  next
    case (Change k input)
    then have o: "focus_order f evs" using Cons.prems(1) by simp
    have "\<forall>j. f = Some j \<longrightarrow> originalValueRef (step e st) = spec_onFocus e st sn j"
      using Change Cons.prems(2) by (simp add: handleFieldChange_def spec_onFocus_def)
    then show ?thesis
      using Cons.IH [OF o, of "step e st" "spec_onFocus e st sn"] Change by simp
  next
    case (Blur k)
    then have o: "focus_order None evs" using Cons.prems(1) by simp
    show ?thesis
      using Cons.IH [OF o, of "step e st" "spec_onFocus e st sn"] Blur by simp
  next
    case Resolve
    then have o: "focus_order f evs" using Cons.prems(1) by simp
    have "originalValueRef (step e st) = originalValueRef st"
      using Resolve originalValueRef_step [of Resolve st] by (simp add: is_focus_def)
    then have "\<forall>j. f = Some j \<longrightarrow> originalValueRef (step e st) = spec_onFocus e st sn j"
      using Resolve Cons.prems(2) by (simp add: spec_onFocus_def)
    then show ?thesis
      using Cons.IH [OF o, of "step e st" "spec_onFocus e st sn"] Resolve by simp
  qed
qed

lemma focus_order_before_blur:
  "focus_order f (evs @ [Blur k]) \<Longrightarrow> focus_order f evs \<and> focused_after f evs = Some k"
proof (induction evs arbitrary: f)
  case Nil
  then show ?case by simp
next
  case (Cons e evs)
  then show ?case by (cases e) auto
qed

text \<open>
  C6. A focus on field \<open>k\<close> stores the value \<open>k\<close> shows at that moment. The form keeps
  it in its one \<^verbatim>\<open>originalValueRef\<close>; in the order a browser delivers focus and blur,
  that is the snapshot of the field itself: as long as \<open>k\<close> has the focus, and so at the
  blur of \<open>k\<close>, the stored value is the \<^verbatim>\<open>snapshotOnFocus\<close> of \<open>k\<close>, which a focus on
  another field does not change.
\<close>

theorem focus_snapshot_own_field:
  "originalValueRef (step (Focus k) st) = Some (val (fields_state st k))
   \<and> spec_onFocus (Focus k) st sn k = Some (val (fields_state st k))
   \<and> (k' \<noteq> k \<longrightarrow> spec_onFocus (Focus k') st sn k = sn k)
   \<and> (focus_order f evs \<and> (\<forall>j. f = Some j \<longrightarrow> originalValueRef st = sn j)
        \<and> focused_after f evs = Some k
      \<longrightarrow> originalValueRef (run evs st) = spec_snapshots evs st sn k)
   \<and> (focus_order f (evs @ [Blur k]) \<and> (\<forall>j. f = Some j \<longrightarrow> originalValueRef st = sn j)
      \<longrightarrow> originalValueRef (run evs st) = spec_snapshots evs st sn k)"
proof -
  have a: "originalValueRef (step (Focus k) st) = Some (val (fields_state st k))"
    "spec_onFocus (Focus k) st sn k = Some (val (fields_state st k))"
    "k' \<noteq> k \<Longrightarrow> spec_onFocus (Focus k') st sn k = sn k"
    by (simp_all add: handleFocus_def spec_onFocus_def)
  have b: "originalValueRef (run evs st) = spec_snapshots evs st sn k"
    if "focus_order f evs" "\<forall>j. f = Some j \<longrightarrow> originalValueRef st = sn j"
      "focused_after f evs = Some k"
    using snapshot_invariant [OF that(1,2)] that(3) by blast
  have c: "originalValueRef (run evs st) = spec_snapshots evs st sn k"
    if "focus_order f (evs @ [Blur k])" "\<forall>j. f = Some j \<longrightarrow> originalValueRef st = sn j"
    using focus_order_before_blur [OF that(1)] b that(2) by blast
  show ?thesis
    using a b c by blast
qed

theorem focus_snapshot_own_field_witness:
  "focus_order None [Focus SalesPrice, Change SalesPrice ''9999'', Blur SalesPrice,
      Focus DownPayment, Change DownPayment ''3000'', Blur DownPayment]
   \<and> originalValueRef (run [Focus SalesPrice, Change SalesPrice ''9999'', Blur SalesPrice,
        Focus DownPayment, Change DownPayment ''3000''] initialForm)
       = Some ''2500.00''
   \<and> spec_snapshots [Focus SalesPrice, Change SalesPrice ''9999'', Blur SalesPrice,
        Focus DownPayment, Change DownPayment ''3000''] initialForm (\<lambda>k. None) DownPayment
       = Some ''2500.00''
   \<and> spec_snapshots [Focus SalesPrice, Change SalesPrice ''9999'', Blur SalesPrice,
        Focus DownPayment, Change DownPayment ''3000''] initialForm (\<lambda>k. None) SalesPrice
       = Some ''27537.00''
   \<and> spec_onFocus (Focus DownPayment) initialForm (\<lambda>k. None) SalesPrice = None"
proof -
  have o: "focus_order None ([Focus SalesPrice, Change SalesPrice ''9999'', Blur SalesPrice,
      Focus DownPayment, Change DownPayment ''3000''] @ [Blur DownPayment])"
    by simp
  have s: "spec_snapshots [Focus SalesPrice, Change SalesPrice ''9999'', Blur SalesPrice,
        Focus DownPayment, Change DownPayment ''3000''] initialForm (\<lambda>k. None)
      = [SalesPrice \<mapsto> ''27537.00'', DownPayment \<mapsto> ''2500.00'']"
    by (simp add: spec_onFocus_def handler_defs initialFields_def sanitize_9999
        commitFormat_9999)
  have "originalValueRef (run [Focus SalesPrice, Change SalesPrice ''9999'', Blur SalesPrice,
        Focus DownPayment, Change DownPayment ''3000''] initialForm)
      = spec_snapshots [Focus SalesPrice, Change SalesPrice ''9999'', Blur SalesPrice,
        Focus DownPayment, Change DownPayment ''3000''] initialForm (\<lambda>k. None) DownPayment"
    using focus_snapshot_own_field
      [of DownPayment initialForm "\<lambda>k. None" SalesPrice None
        "[Focus SalesPrice, Change SalesPrice ''9999'', Blur SalesPrice,
          Focus DownPayment, Change DownPayment ''3000'']"] o
    by (simp del: run_Cons spec_snapshots.simps)
  then show ?thesis
    using focus_snapshot_own_field [of SalesPrice initialForm "\<lambda>k. None" DownPayment None "[]"]
    by (simp add: s spec_onFocus_def del: run_Cons spec_snapshots.simps)
qed

section \<open>Editing a field\<close>

text \<open>
  C8. A change event replaces the value of its field by the sanitised input and clears
  the error flag, whatever the flag was. It is one step of the form: it waits for no
  save in flight (the list of saves in flight is as before), and it touches neither
  the other fields, nor the total, nor the value recorded at focus.
\<close>

theorem change_sanitizes_and_clears_error:
  "fields_state (step (Change k input) st) k
     = \<lparr>val = parseCurrencyInput input, isSaving = isSaving (fields_state st k),
        hasError = False\<rparr>
   \<and> (\<forall>k'. k' \<noteq> k \<longrightarrow> fields_state (step (Change k input) st) k' = fields_state st k')
   \<and> pending (step (Change k input) st) = pending st
   \<and> amountFinanced (step (Change k input) st) = amountFinanced st
   \<and> originalValueRef (step (Change k input) st) = originalValueRef st"
  by (simp add: handleFieldChange_def)

theorem change_sanitizes_and_clears_error_witness:
  "hasError (fields_state scenarioB SalesPrice)
   \<and> fields_state (step (Change SalesPrice ''9999'') scenarioB) SalesPrice
       = \<lparr>val = ''9999'', isSaving = False, hasError = False\<rparr>
   \<and> fields_state (step (Change SalesPrice ''9999'') scenarioB) DownPayment
       = fields_state scenarioB DownPayment"
  using change_sanitizes_and_clears_error [of SalesPrice "''9999''" scenarioB]
  by (simp add: scenarioB_eq sanitize_9999)

section \<open>Leaving a field\<close>

text \<open>
  C2, as the code has it. Field \<open>k\<close> is focused, any events but a focus follow, and at
  the blur of \<open>k\<close> the formatted value is the one recorded at the focus. Then the blur
  issues no save and only writes the formatted value into the field (nothing at all
  when the value is formatted already). The flags \<^verbatim>\<open>isSaving\<close> and \<^verbatim>\<open>hasError\<close> stay as
  they were: an idle field stays idle, a field in error stays in error.
\<close>

theorem noop_blur_leaves_status:
  assumes "\<not> list_ex is_focus evs"
    and "st' = run evs (step (Focus k) st)"
    and "commitFormat (val (fields_state st' k)) = val (fields_state st k)"
  shows "pending (step (Blur k) st') = pending st'
   \<and> fields_state (step (Blur k) st')
       = (fields_state st')(k := (fields_state st' k)
            \<lparr>val := commitFormat (val (fields_state st' k))\<rparr>)
   \<and> val (fields_state (step (Blur k) st') k) = commitFormat (val (fields_state st' k))
   \<and> isSaving (fields_state (step (Blur k) st') k) = isSaving (fields_state st' k)
   \<and> hasError (fields_state (step (Blur k) st') k) = hasError (fields_state st' k)
   \<and> amountFinanced (step (Blur k) st') = amountFinanced st'
   \<and> (val (fields_state st' k) = commitFormat (val (fields_state st' k))
        \<longrightarrow> step (Blur k) st' = st')"
proof -
  have "originalValueRef st' = Some (val (fields_state st k))"
    using assms(1,2) by (simp add: originalValueRef_run handleFocus_def)
  then have snap: "originalValueRef st' = Some (commitFormat (val (fields_state st' k)))"
    using assms(3) by simp
  show ?thesis
    using snap by (auto simp: handleBlur_def Let_def)
qed

theorem noop_blur_leaves_status_witness:
  "\<not> list_ex is_focus []
   \<and> commitFormat (val (fields_state (run [] (step (Focus SalesPrice) scenarioB)) SalesPrice))
       = val (fields_state scenarioB SalesPrice)
   \<and> pending (step (Blur SalesPrice) (step (Focus SalesPrice) scenarioB)) = []
   \<and> hasError (fields_state (step (Blur SalesPrice) (step (Focus SalesPrice) scenarioB))
        SalesPrice)"
proof -
  have a: "\<not> list_ex is_focus []" by simp
  have b: "commitFormat (val (fields_state (run [] (step (Focus SalesPrice) scenarioB)) SalesPrice))
       = val (fields_state scenarioB SalesPrice)"
    by (simp add: scenarioB_eq handleFocus_def commitFormat_9999_00)
  show ?thesis
    using noop_blur_leaves_status [OF a refl b] b
    by (simp add: scenarioB_eq handleFocus_def handleBlur_def Let_def commitFormat_9999_00)
qed

text \<open>
  C2 as stated fails on the status: after scenario B the sales price holds the rejected
  \<^verbatim>\<open>9999.00\<close> with its error flag set. Focusing it and leaving it again is a blur
  without a change, no save is issued, and the error flag is still set: the field does
  not end idle.
\<close>

theorem noop_blur_idle_counterexample:
  "originalValueRef (step (Focus SalesPrice) scenarioB)
     = Some (commitFormat (val (fields_state (step (Focus SalesPrice) scenarioB) SalesPrice)))
   \<and> pending (run [Focus SalesPrice, Blur SalesPrice] scenarioB) = []
   \<and> hasError (fields_state (run [Focus SalesPrice, Blur SalesPrice] scenarioB) SalesPrice)"
  by (simp add: scenarioB_eq handleFocus_def handleBlur_def Let_def commitFormat_9999_00)

section \<open>Saves coming back\<close>

lemma amountFinanced_step:
  "\<not> accepted e st \<Longrightarrow> amountFinanced (step e st) = amountFinanced st"
  by (cases e) (auto simp: handler_defs split: list.splits sum.splits)

lemma amountFinanced_run:
  "no_accept evs st \<Longrightarrow> amountFinanced (run evs st) = amountFinanced st"
  by (induction evs arbitrary: st) (simp_all add: amountFinanced_step)

text \<open>
  C3, as the code has it. A blur that finds the formatted value different from the
  recorded one writes the formatted value into the field and issues a save that
  carries it. When that save comes back rejected, the field holds the formatted value
  of the attempt (whatever was recorded at focus), \<^verbatim>\<open>isSaving\<close> is off and
  \<^verbatim>\<open>hasError\<close> is on; the rejection itself leaves the other fields and the total as
  they were just before it. Along a run in which no save is accepted, the edit and
  its rejection included, the total stays what it was at the start.
\<close>

theorem commit_failure_keeps_attempt:
  "(originalValueRef st \<noteq> Some (commitFormat (val (fields_state st k))) \<longrightarrow>
      val (fields_state (step (Blur k) st) k) = commitFormat (val (fields_state st k))
      \<and> pending (step (Blur k) st)
          = pending st @ [(k, commitFormat (val (fields_state st k)))])
   \<and> (pending st = (k, formattedValue) # rest \<and> save k formattedValue = Inl err \<longrightarrow>
      fields_state (step Resolve st) k
        = \<lparr>val = formattedValue, isSaving = False, hasError = True\<rparr>
      \<and> (\<forall>k'. k' \<noteq> k \<longrightarrow> fields_state (step Resolve st) k' = fields_state st k')
      \<and> amountFinanced (step Resolve st) = amountFinanced st
      \<and> pending (step Resolve st) = rest)
   \<and> (no_accept evs st \<longrightarrow> amountFinanced (run evs st) = amountFinanced st)"
  by (auto simp: handleBlur_def resolve_def Let_def amountFinanced_run)

theorem commit_failure_keeps_attempt_witness:
  "originalValueRef (run [Focus SalesPrice, Change SalesPrice ''9999''] initialForm)
     \<noteq> Some (commitFormat (val (fields_state
          (run [Focus SalesPrice, Change SalesPrice ''9999''] initialForm) SalesPrice)))
   \<and> pending (step (Blur SalesPrice)
        (run [Focus SalesPrice, Change SalesPrice ''9999''] initialForm))
       = [(SalesPrice, ''9999.00'')]
   \<and> pending scenarioB_blurred = [(SalesPrice, ''9999.00'')]
   \<and> save SalesPrice ''9999.00'' = Inl BelowMinimum
   \<and> fields_state (step Resolve scenarioB_blurred) SalesPrice
       = \<lparr>val = ''9999.00'', isSaving = False, hasError = True\<rparr>
   \<and> amountFinanced (step Resolve scenarioB_blurred) = ''$25,037.00''
   \<and> no_accept [Focus SalesPrice, Change SalesPrice ''9999'', Blur SalesPrice, Resolve]
        initialForm
   \<and> amountFinanced
        (run [Focus SalesPrice, Change SalesPrice ''9999'', Blur SalesPrice, Resolve] initialForm)
       = amountFinanced initialForm"
proof -
  have na: "no_accept [Focus SalesPrice, Change SalesPrice ''9999'', Blur SalesPrice, Resolve]
      initialForm"
    by (simp add: handler_defs initialFields_def sanitize_9999 commitFormat_9999 save_9999)
  have ch: "run [Focus SalesPrice, Change SalesPrice ''9999''] initialForm
      = \<lparr>fields_state = initialFields
          (SalesPrice := \<lparr>val = ''9999'', isSaving = False, hasError = False\<rparr>),
         originalValueRef = Some ''27537.00'', amountFinanced = ''$25,037.00'',
         pending = []\<rparr>"
    by (simp add: handler_defs initialForm_def initial_total initialFields_def sanitize_9999)
  have a: "originalValueRef (run [Focus SalesPrice, Change SalesPrice ''9999''] initialForm)
     \<noteq> Some (commitFormat (val (fields_state
          (run [Focus SalesPrice, Change SalesPrice ''9999''] initialForm) SalesPrice)))"
    unfolding ch by (simp add: commitFormat_9999)
  show ?thesis
    using commit_failure_keeps_attempt
      [of "run [Focus SalesPrice, Change SalesPrice ''9999''] initialForm" SalesPrice
        "''9999.00''" "[]" BelowMinimum "[]"]
      commit_failure_keeps_attempt
      [of scenarioB_blurred SalesPrice "''9999.00''" "[]" BelowMinimum "[]"]
      commit_failure_keeps_attempt
      [of initialForm SalesPrice "''9999.00''" "[]" BelowMinimum
        "[Focus SalesPrice, Change SalesPrice ''9999'', Blur SalesPrice, Resolve]"]
      na a
    by (simp add: scenarioB_blurred_eq save_9999 ch commitFormat_9999
        del: run_Cons no_accept.simps)
qed

text \<open>
  C3 as stated fails on the total: it need not be the one before the edit. The
  warranty is set to \<^verbatim>\<open>500\<close> and left; while its save is in flight the sales price is
  set to \<^verbatim>\<open>9999\<close> and left. The save of the warranty comes back accepted and the total
  is computed from the fields as they are then, \<^verbatim>\<open>9999.00\<close> included; the save of the
  sales price comes back rejected and leaves that total, \<^verbatim>\<open>$7,999.00\<close>, not the
  \<^verbatim>\<open>$25,037.00\<close> shown before the sales price was edited.
\<close>

theorem commit_failure_pre_edit_counterexample:
  "amountFinanced (run [Focus Warranty, Change Warranty ''500'', Blur Warranty] initialForm)
     = ''$25,037.00''
   \<and> pending (run [Focus Warranty, Change Warranty ''500'', Blur Warranty,
        Focus SalesPrice, Change SalesPrice ''9999'', Blur SalesPrice, Resolve] initialForm)
       = [(SalesPrice, ''9999.00'')]
   \<and> save SalesPrice ''9999.00'' = Inl BelowMinimum
   \<and> hasError (fields_state (run [Focus Warranty, Change Warranty ''500'', Blur Warranty,
        Focus SalesPrice, Change SalesPrice ''9999'', Blur SalesPrice, Resolve, Resolve]
        initialForm) SalesPrice)
   \<and> amountFinanced (run [Focus Warranty, Change Warranty ''500'', Blur Warranty,
        Focus SalesPrice, Change SalesPrice ''9999'', Blur SalesPrice, Resolve, Resolve]
        initialForm)
       = ''$7,999.00''"
  by (simp add: handler_defs initialFields_def sanitize_500 sanitize_9999 commitFormat_500
      commitFormat_9999 save_500 save_9999 total_while_saving)

text \<open>
  C1, as the code has it. The total shown changes at no event but a save coming back
  accepted. At that moment it is \<^verbatim>\<open>calculateTotal\<close> of the values the five fields hold
  in the form then, whatever their flags: the save changes no value, and the value of
  a field that is being saved, is in error or is being edited counts as it stands.
\<close>

theorem total_follows_successful_save:
  "(amountFinanced (step e st) \<noteq> amountFinanced st \<longrightarrow>
      e = Resolve \<and> (\<exists>k fv rest. pending st = (k, fv) # rest \<and> save k fv = Inr ()))
   \<and> (pending st = (k, formattedValue) # rest \<and> save k formattedValue = Inr () \<longrightarrow>
      amountFinanced (step Resolve st) = calculateTotal (fields_state (step Resolve st))
      \<and> (\<forall>k'. val (fields_state (step Resolve st) k') = val (fields_state st k'))
      \<and> fields_state (step Resolve st)
          = (fields_state st)(k := (fields_state st k)\<lparr>isSaving := False, hasError := False\<rparr>))"
proof -
  have "amountFinanced (step e st) \<noteq> amountFinanced st \<Longrightarrow>
      e = Resolve \<and> (\<exists>k fv rest. pending st = (k, fv) # rest \<and> save k fv = Inr ())"
    using amountFinanced_step [of e st]
    by (cases e; cases "pending st") auto
  moreover have "pending st = (k, formattedValue) # rest \<and> save k formattedValue = Inr () \<Longrightarrow>
      amountFinanced (step Resolve st) = calculateTotal (fields_state (step Resolve st))
      \<and> (\<forall>k'. val (fields_state (step Resolve st) k') = val (fields_state st k'))
      \<and> fields_state (step Resolve st)
          = (fields_state st)(k := (fields_state st k)\<lparr>isSaving := False, hasError := False\<rparr>)"
    by (auto simp: resolve_def Let_def)
  ultimately show ?thesis by blast
qed

theorem total_follows_successful_save_witness:
  "pending scenarioB_warranty_blurred = [(Warranty, ''500.00'')]
   \<and> save Warranty ''500.00'' = Inr ()
   \<and> amountFinanced (step Resolve scenarioB_warranty_blurred)
       = calculateTotal (fields_state (step Resolve scenarioB_warranty_blurred))
   \<and> amountFinanced (step Resolve scenarioB_warranty_blurred) = ''$7,999.00''
   \<and> amountFinanced (step Resolve scenarioB_warranty_blurred)
       \<noteq> amountFinanced scenarioB_warranty_blurred"
  using total_follows_successful_save
    [of Resolve scenarioB_warranty_blurred Warranty "''500.00''" "[]"]
  by (simp add: scenarioB_warranty_blurred_eq save_500 resolve_def total_after_warranty)

text \<open>
  C1 as stated fails. After scenario B the sales price is in error with the rejected
  \<^verbatim>\<open>9999.00\<close>; its last accepted value is \<^verbatim>\<open>27537.00\<close>. When the save of the warranty
  \<^verbatim>\<open>500.00\<close> then comes back accepted, the total becomes \<^verbatim>\<open>$7,999.00\<close>, that is
  9999 - 2500 + 500, and not the \<^verbatim>\<open>$25,537.00\<close> of the last accepted values.
\<close>

theorem total_last_committed_counterexample:
  "hasError (fields_state (step Resolve scenarioB_warranty_blurred) SalesPrice)
   \<and> val (fields_state (step Resolve scenarioB_warranty_blurred) SalesPrice) = ''9999.00''
   \<and> amountFinanced (step Resolve scenarioB_warranty_blurred) = ''$7,999.00''
   \<and> calculateTotal (with_values ''27537.00'' ''2500.00'' ''500.00'' ''0.00'' ''0.00'')
       = ''$25,537.00''"
  by (simp add: scenarioB_warranty_blurred_eq save_500 resolve_def total_after_warranty
      total_committed)

section \<open>What sanitising returns\<close>

lemma split_dot_length: "length (split_dot s) = Suc (count_points s)"
  by (induction s) (auto simp: count_points_def split_dot_nonempty)

lemma nth_0_in_single: "length qs = Suc 0 \<Longrightarrow> qs ! 0 \<in> set qs"
  by (cases qs) auto

lemma split_dot_no_point: "p \<in> set (split_dot s) \<Longrightarrow> CHR ''.'' \<notin> set p"
proof (induction s arbitrary: p)
  case Nil
  then show ?case by simp
next
  case (Cons c cs)
  obtain q qs where q: "split_dot cs = q # qs"
    using split_dot_nonempty [of cs] by (cases "split_dot cs") auto
  show ?case
    using Cons q by (auto split: if_splits)
qed

lemma split_dot_chars: "p \<in> set (split_dot s) \<Longrightarrow> set p \<subseteq> set s"
proof (induction s arbitrary: p)
  case Nil
  then show ?case by simp
next
  case (Cons c cs)
  obtain q qs where q: "split_dot cs = q # qs"
    using split_dot_nonempty [of cs] by (cases "split_dot cs") auto
  show ?case
    using Cons q by (fastforce split: if_splits)
qed

lemma count_points_Nil [simp]: "count_points [] = 0"
  by (simp add: count_points_def)

lemma count_points_Cons [simp]:
  "count_points (c # s) = (if c = CHR ''.'' then 1 else 0) + count_points s"
  by (simp add: count_points_def)

lemma count_points_none: "CHR ''.'' \<notin> set p \<Longrightarrow> count_points p = 0"
  by (induction p) auto

lemma count_points_append [simp]: "count_points (a @ b) = count_points a + count_points b"
  by (induction a) auto

lemma count_points_concat: "\<forall>p \<in> set ps. CHR ''.'' \<notin> set p \<Longrightarrow> count_points (concat ps) = 0"
  by (induction ps) (auto simp: count_points_none)

lemma strip_chars: "c \<in> set (strip_non_numeric s) \<Longrightarrow> is_numeric_char c"
  by (simp add: strip_non_numeric_def)

lemma parseCurrencyInput_chars:
  "c \<in> set (parseCurrencyInput s) \<Longrightarrow> is_numeric_char c"
proof -
  let ?n = "strip_non_numeric s"
  obtain q qs where q: "split_dot ?n = q # qs"
    using split_dot_nonempty [of ?n] by (cases "split_dot ?n") auto
  have pieces: "\<And>p x. p \<in> set (q # qs) \<Longrightarrow> x \<in> set p \<Longrightarrow> is_numeric_char x"
    using split_dot_chars [of _ ?n] strip_chars [of _ s] q by auto
  assume "c \<in> set (parseCurrencyInput s)"
  then show ?thesis
    using pieces q strip_chars [of c s]
    by (auto simp: parseCurrencyInput_def Let_def is_numeric_char_def
        split: if_splits dest!: in_set_takeD dest: nth_0_in_single)
qed

lemma parseCurrencyInput_one_point: "count_points (parseCurrencyInput s) \<le> 1"
proof -
  let ?n = "strip_non_numeric s"
  obtain q qs where q: "split_dot ?n = q # qs"
    using split_dot_nonempty [of ?n] by (cases "split_dot ?n") auto
  have nop: "\<And>p. p \<in> set (q # qs) \<Longrightarrow> CHR ''.'' \<notin> set p"
    using split_dot_no_point [of _ ?n] q by auto
  have len: "length (q # qs) = Suc (count_points ?n)"
    using split_dot_length [of ?n] q by simp
  have c1: "count_points q = 0" using nop by (simp add: count_points_none)
  have c2: "count_points (concat qs) = 0" using nop by (simp add: count_points_concat)
  have c3: "length qs = 1 \<Longrightarrow> count_points (take 2 (qs ! 0)) = 0"
    using nop by (cases qs) (auto intro!: count_points_none dest!: in_set_takeD)
  show ?thesis
    using q len c1 c2 c3
    by (auto simp: parseCurrencyInput_def Let_def)
qed

lemma split_dot_no_points: "CHR ''.'' \<notin> set p \<Longrightarrow> split_dot p = [p]"
  by (induction p) auto

lemma split_dot_at_point:
  "CHR ''.'' \<notin> set q \<Longrightarrow> split_dot (q @ CHR ''.'' # r) = q # split_dot r"
  by (induction q) auto

lemma concat_split_dot: "concat (split_dot r) = filter (\<lambda>c. c \<noteq> CHR ''.'') r"
proof (induction r)
  case Nil
  then show ?case by simp
next
  case (Cons c cs)
  obtain q qs where q: "split_dot cs = q # qs"
    using split_dot_nonempty [of cs] by (cases "split_dot cs") auto
  show ?case using Cons q by auto
qed

lemma first_point:
  "0 < count_points n \<Longrightarrow>
     \<exists>q r. n = q @ CHR ''.'' # r \<and> CHR ''.'' \<notin> set q \<and> count_points n = Suc (count_points r)"
proof (induction n)
  case Nil
  then show ?case by simp
next
  case (Cons c cs)
  show ?case
  proof (cases "c = CHR ''.''")
    case True
    then have "c # cs = [] @ CHR ''.'' # cs \<and> CHR ''.'' \<notin> set []
        \<and> count_points (c # cs) = Suc (count_points cs)"
      by simp
    then show ?thesis by blast
  next
    case False
    then have "0 < count_points cs" using Cons.prems by simp
    then obtain q r where "cs = q @ CHR ''.'' # r" "CHR ''.'' \<notin> set q"
        "count_points cs = Suc (count_points r)"
      using Cons.IH by blast
    then have "c # cs = (c # q) @ CHR ''.'' # r \<and> CHR ''.'' \<notin> set (c # q)
        \<and> count_points (c # cs) = Suc (count_points r)"
      using False by simp
    then show ?thesis by blast
  qed
qed

lemma count_points_zero: "count_points r = 0 \<Longrightarrow> CHR ''.'' \<notin> set r"
  by (induction r) (auto split: if_splits)

text \<open>What the function returns, by the number of points left after stripping.\<close>

lemma parseCurrencyInput_no_point:
  "count_points (strip_non_numeric s) = 0 \<Longrightarrow> parseCurrencyInput s = strip_non_numeric s"
  by (simp add: parseCurrencyInput_def Let_def split_dot_length)

lemma parseCurrencyInput_one_point_in:
  assumes "strip_non_numeric s = q @ CHR ''.'' # r" "CHR ''.'' \<notin> set q" "CHR ''.'' \<notin> set r"
  shows "parseCurrencyInput s = q @ CHR ''.'' # take 2 r"
  using assms
  by (simp add: parseCurrencyInput_def Let_def split_dot_at_point split_dot_no_points)

lemma parseCurrencyInput_more_points:
  assumes "strip_non_numeric s = q @ CHR ''.'' # r" "CHR ''.'' \<notin> set q" "CHR ''.'' \<in> set r"
  shows "parseCurrencyInput s = q @ CHR ''.'' # filter (\<lambda>c. c \<noteq> CHR ''.'') r"
proof -
  have "0 < count_points r"
    using assms(3) count_points_zero [of r] by auto
  then have "2 < length (split_dot (strip_non_numeric s))"
    using assms(1,2) by (simp add: split_dot_at_point split_dot_length)
  then show ?thesis
    using assms(1,2) by (simp add: parseCurrencyInput_def Let_def split_dot_at_point concat_split_dot)
qed

lemma strip_idem: "\<forall>c \<in> set s. is_numeric_char c \<Longrightarrow> strip_non_numeric s = s"
  by (simp add: strip_non_numeric_def)

lemma after_point_at: "CHR ''.'' \<notin> set q \<Longrightarrow> after_point (q @ CHR ''.'' # r) = r"
  by (induction q) (auto simp: after_point_def)

lemma after_point_none: "CHR ''.'' \<notin> set q \<Longrightarrow> after_point q = []"
  by (induction q) (auto simp: after_point_def)

text \<open>
  With at most one point left after stripping, the function does truncate the fraction
  to two characters, and applying it again changes nothing.
\<close>

lemma sanitize_single_point:
  assumes "count_points (strip_non_numeric s) \<le> 1"
  shows "length (after_point (parseCurrencyInput s)) \<le> 2
     \<and> parseCurrencyInput (parseCurrencyInput s) = parseCurrencyInput s"
proof (cases "count_points (strip_non_numeric s) = 0")
  case True
  then have out: "parseCurrencyInput s = strip_non_numeric s"
    by (rule parseCurrencyInput_no_point)
  have "strip_non_numeric (strip_non_numeric s) = strip_non_numeric s"
    by (simp add: strip_non_numeric_def)
  then have "parseCurrencyInput (strip_non_numeric s) = strip_non_numeric s"
    using True by (simp add: parseCurrencyInput_no_point)
  then show ?thesis
    using out True by (simp add: after_point_none count_points_zero)
next
  case False
  then have "0 < count_points (strip_non_numeric s)" by simp
  then obtain q r where n: "strip_non_numeric s = q @ CHR ''.'' # r" "CHR ''.'' \<notin> set q"
      "count_points (strip_non_numeric s) = Suc (count_points r)"
    using first_point by blast
  then have r: "CHR ''.'' \<notin> set r"
    using assms count_points_zero [of r] by simp
  have out: "parseCurrencyInput s = q @ CHR ''.'' # take 2 r"
    using n(1,2) r by (rule parseCurrencyInput_one_point_in)
  have "\<forall>c \<in> set (q @ CHR ''.'' # take 2 r). is_numeric_char c"
    using parseCurrencyInput_chars [of _ s] out by simp
  then have "strip_non_numeric (q @ CHR ''.'' # take 2 r) = q @ CHR ''.'' # take 2 r"
    by (rule strip_idem)
  moreover have "CHR ''.'' \<notin> set (take 2 r)"
    using r by (auto dest: in_set_takeD)
  ultimately have "parseCurrencyInput (q @ CHR ''.'' # take 2 r) = q @ CHR ''.'' # take 2 (take 2 r)"
    using n(2) by (intro parseCurrencyInput_one_point_in) simp_all
  then show ?thesis
    using out n(2) by (simp add: after_point_at)
qed

text \<open>
  C4 at its failing input. With two points in the input the function returns from
  its first branch, which joins the pieces after the first point and does not reach
  the truncation ("Limit to two decimal places") below it. The result has four
  fraction digits, and a second application truncates it: the function is not
  idempotent there.
\<close>

theorem sanitize_not_idempotent_at_two_points:
  "parseCurrencyInput ''1.2.345'' = ''1.2345''
   \<and> parseCurrencyInput (parseCurrencyInput ''1.2.345'') = ''1.23''"
  by (simp add: sanitize_eval)

text \<open>
  C5 at its failing input: after the first branch four digits follow the point. (The
  two other parts of C5 hold for every input: \<open>parseCurrencyInput_chars\<close> and
  \<open>parseCurrencyInput_one_point\<close>.)
\<close>

theorem sanitize_keeps_digits_at_two_points:
  "after_point (parseCurrencyInput ''1.2.345'') = ''2345''
   \<and> length (after_point (parseCurrencyInput ''1.2.345'')) = 4"
  by (simp add: sanitize_eval after_point_def)

section \<open>Digits\<close>

lemma digit_char_is_digit: "d < 10 \<Longrightarrow> is_digit (digit_char d)"
  unfolding is_digit_def digit_char_def by (rule nth_mem) simp

lemma show_nat_digits: "c \<in> set (show_nat n) \<Longrightarrow> is_digit c"
proof (induction n arbitrary: c rule: show_nat.induct)
  case (1 n)
  show ?case
  proof (cases "n < 10")
    case True
    then show ?thesis
      using "1.prems" by (simp add: show_nat.simps [of n] digit_char_is_digit)
  next
    case False
    then show ?thesis
      using "1.prems" "1.IH" by (auto simp: show_nat.simps [of n] digit_char_is_digit)
  qed
qed

lemma show_nat_nonempty: "show_nat n \<noteq> []"
  by (simp add: show_nat.simps [of n])

lemma show_nat_hd_digit: "is_digit (hd (show_nat n))"
  using show_nat_digits [of "hd (show_nat n)" n] show_nat_nonempty [of n] by simp

lemma show_nat_small: "n < 10 \<Longrightarrow> show_nat n = [digit_char n]"
  by (simp add: show_nat.simps [of n])

lemma show_nat_step: "10 \<le> n \<Longrightarrow> show_nat n = show_nat (n div 10) @ [digit_char (n mod 10)]"
  by (simp add: show_nat.simps [of n])

lemma show_nat_two: "100 \<le> n \<Longrightarrow>
  show_nat n = show_nat (n div 100) @ [digit_char (n div 10 mod 10), digit_char (n mod 10)]"
proof -
  assume n: "100 \<le> n"
  then have "10 \<le> n div 10" by simp
  then have "show_nat (n div 10) = show_nat (n div 10 div 10) @ [digit_char (n div 10 mod 10)]"
    by (rule show_nat_step)
  moreover have "n div 10 div 10 = n div 100" by (simp add: div_mult2_eq)
  ultimately show ?thesis using n by (simp add: show_nat_step)
qed

lemma fixed_point_2:
  "fixed_point 2 n
     = show_nat (n div 100) @ ''.'' @ [digit_char (n div 10 mod 10), digit_char (n mod 10)]"
proof -
  consider "n < 10" | "10 \<le> n" "n < 100" | "100 \<le> n" by linarith
  then show ?thesis
  proof cases
    case 1
    then show ?thesis
      by (simp add: fixed_point_def show_nat_small digit_char_def numeral_2_eq_2)
  next
    case 2
    then have "n div 10 < 10" by simp
    then show ?thesis
      using 2 by (simp add: fixed_point_def show_nat_step show_nat_small digit_char_def)
  next
    case 3
    then show ?thesis
      by (simp add: fixed_point_def show_nat_two Let_def show_nat_nonempty)
  qed
qed

lemma matches_fixed_point_2: "matches_fixed2 (fixed_point 2 n)"
  by (simp add: fixed_point_2 matches_fixed2_def list_all_iff show_nat_digits
      show_nat_nonempty nth_append digit_char_is_digit)

subsection \<open>Rounding never yields NaN nor changes the sign\<close>

lemma pow2_pos: "0 < pow2 e"
  by (simp add: pow2_def)

lemma round_half_even_nonneg: "0 \<le> q \<Longrightarrow> 0 \<le> round_half_even q"
  by (auto simp: round_half_even_def Let_def)

lemma round_double_pos_nonneg: "0 < q \<Longrightarrow> nonneg_num (round_double_pos q)"
proof -
  assume q: "0 < q"
  let ?e = "max (binade q - 52) (- 1074)"
  have "0 \<le> q / pow2 ?e" using q pow2_pos [of ?e] by simp
  then have "0 \<le> round_half_even (q / pow2 ?e)" by (rule round_half_even_nonneg)
  then have "0 \<le> rat_of_int (round_half_even (q / pow2 ?e)) * pow2 ?e"
    using pow2_pos [of ?e] by simp
  then show ?thesis
    by (simp add: round_double_pos_def Let_def nonneg_num_def)
qed

lemma round_double_nonneg: "0 \<le> q \<Longrightarrow> nonneg_num (round_double q)"
  using round_double_pos_nonneg [of q] by (auto simp: round_double_def nonneg_num_def)

lemma round_double_pos_not_NaN: "round_double_pos q \<noteq> NaN"
  by (simp add: round_double_pos_def Let_def)

lemma jsneg_NaN_iff [simp]: "jsneg x = NaN \<longleftrightarrow> x = NaN"
  by (cases x) auto

lemma round_double_not_NaN: "round_double q \<noteq> NaN"
  by (simp add: round_double_def round_double_pos_not_NaN)

lemma pow10_pos: "0 < pow10 e"
  by (simp add: pow10_def)

lemma parse_unsigned_nonneg: "parse_unsigned s = NaN \<or> nonneg_num (parse_unsigned s)"
proof -
  have "nonneg_num (round_double ((rat_of_nat a + rat_of_nat b / 10 ^ n) * pow10 e))" for a b n e
  proof (rule round_double_nonneg)
    have "0 \<le> rat_of_nat a + rat_of_nat b / 10 ^ n" by simp
    then show "0 \<le> (rat_of_nat a + rat_of_nat b / 10 ^ n) * pow10 e"
      using pow10_pos [of e] by simp
  qed
  then show ?thesis
    by (simp add: parse_unsigned_def Let_def nonneg_num_def)
qed

lemma parse_unsigned_digit: "is_digit d \<Longrightarrow> parse_unsigned (d # rest) \<noteq> NaN"
  by (auto simp: parse_unsigned_def Let_def round_double_not_NaN is_digit_def)

lemma digit_not_space: "is_digit d \<Longrightarrow> \<not> is_js_space d"
  by (auto simp: is_digit_def is_js_space_def)

lemma parseFloat_digit: "is_digit d \<Longrightarrow> parseFloat (d # rest) \<noteq> NaN"
  using parse_unsigned_digit [of d rest] digit_not_space [of d]
  by (auto simp: parseFloat_def is_digit_def)

lemma parseFloat_minus_digit: "is_digit d \<Longrightarrow> parseFloat (CHR ''-'' # d # rest) \<noteq> NaN"
  using parse_unsigned_digit [of d rest]
  by (simp add: parseFloat_def is_js_space_def)

lemma parseFloat_Infinity: "parseFloat ''Infinity'' = PInf" "parseFloat ''-Infinity'' = NInf"
  by (simp_all add: parseFloat_def parse_unsigned_def is_js_space_def)

section \<open>Printing large Numbers\<close>

text \<open>
  The digits chosen for a double that is an integer read back as that double.
\<close>

lemma closest_mem: "closest x k cs = Some c \<Longrightarrow> c \<in> set cs"
  by (induction cs arbitrary: c) (auto split: option.splits if_splits)

lemma digit_candidates_sound:
  "(s, n) \<in> set (digit_candidates x d k) \<Longrightarrow>
     10 ^ (k - 1) \<le> s \<and> s < 10 ^ k \<and> round_double (of_nat s * 10 ^ (n - k)) = Fin x"
  by (auto simp: digit_candidates_def)

lemma shortest_digits_sound:
  "round_double x = Fin x \<Longrightarrow> rat_of_nat (nat \<lfloor>x\<rfloor>) = x \<Longrightarrow>
     (case shortest_digits x d k of
        (s, k', n) \<Rightarrow> round_double (of_nat s * 10 ^ (n - k')) = Fin x)"
proof (induction x d k rule: shortest_digits.induct)
  case (1 x d k)
  show ?case
  proof (cases "d \<le> k")
    case True
    then show ?thesis
      using "1.prems" by (simp add: shortest_digits.simps [of x d k])
  next
    case False
    show ?thesis
    proof (cases "closest x k (digit_candidates x d k)")
      case None
      then show ?thesis
        using False "1.IH" "1.prems" by (simp add: shortest_digits.simps [of x d k])
    next
      case (Some c)
      obtain s n where c: "c = (s, n)" by (cases c)
      then have "(s, n) \<in> set (digit_candidates x d k)"
        using Some closest_mem by blast
      then have "round_double (of_nat s * 10 ^ (n - k)) = Fin x"
        using digit_candidates_sound by blast
      then show ?thesis
        using False Some c by (simp add: shortest_digits.simps [of x d k])
    qed
  qed
qed

section \<open>What the save accepts\<close>

lemma fixed_point_2_starts_digit:
  "\<exists>d rest. fixed_point 2 n = d # rest \<and> is_digit d"
proof -
  obtain d ds where "show_nat (n div 100) = d # ds"
    using show_nat_nonempty [of "n div 100"] by (cases "show_nat (n div 100)") auto
  then show ?thesis
    using show_nat_hd_digit [of "n div 100"] by (simp add: fixed_point_2)
qed

lemma number_to_string_exp_starts_digit:
  "\<exists>d rest. number_to_string_exp x = d # rest \<and> is_digit d"
proof -
  obtain s k n where t: "shortest_digits x (length (show_nat (nat \<lfloor>x\<rfloor>))) 1 = (s, k, n)"
    by (cases "shortest_digits x (length (show_nat (nat \<lfloor>x\<rfloor>))) 1") auto
  obtain d ds where "show_nat s = d # ds"
    using show_nat_nonempty [of s] by (cases "show_nat s") auto
  then show ?thesis
    using show_nat_hd_digit [of s] t by (simp add: number_to_string_exp_def)
qed

lemma toFixed_2_parses: "x \<noteq> NaN \<Longrightarrow> parseFloat (toFixed 2 x) \<noteq> NaN"
proof (cases x)
  case (Fin q)
  obtain d rest where b: "(if 10 ^ 21 \<le> \<bar>q\<bar> then number_to_string_exp \<bar>q\<bar>
      else fixed_point 2 (nat \<lfloor>\<bar>q\<bar> * 10 ^ 2 + 1 / 2\<rfloor>)) = d # rest" "is_digit d"
    using fixed_point_2_starts_digit number_to_string_exp_starts_digit
    by (metis (full_types))
  show ?thesis
  proof (cases "q < 0")
    case True
    then have "toFixed 2 x = CHR ''-'' # d # rest"
      using Fin b(1) by (simp add: toFixed_def)
    then show ?thesis by (simp add: parseFloat_minus_digit b(2))
  next
    case False
    then have "toFixed 2 x = d # rest"
      using Fin b(1) by (simp add: toFixed_def)
    then show ?thesis by (simp add: parseFloat_digit b(2))
  qed
qed (simp_all add: toFixed_def parseFloat_Infinity)

lemma or_zero_not_NaN: "or_zero x \<noteq> NaN"
  by (simp add: or_zero_def)

lemma commitFormat_parses: "parseFloat (commitFormat v) \<noteq> NaN"
  by (simp add: commitFormat_def toFixed_2_parses or_zero_not_NaN)

text \<open>
  C7. Whatever string the field holds at the blur, the formatted value parses to a
  Number that is not NaN, so the \<^verbatim>\<open>throw\<close> of \<^verbatim>\<open>Invalid number\<close> is never reached; a
  value that does not parse is formatted as zero. The save is rejected exactly when
  the field is the sales price and the number is below 10000; for the other fields it
  is always accepted.
\<close>

theorem save_rejects_only_low_sales_price:
  "((\<exists>err. save k (commitFormat v) = Inl err)
      = (k = SalesPrice \<and> jslt (parseFloat (commitFormat v)) (Fin 10000)))
   \<and> save k (commitFormat v) \<noteq> Inl InvalidNumber
   \<and> \<not> isNaN (parseFloat (commitFormat v))
   \<and> (parseFloat v = NaN \<longrightarrow> commitFormat v = ''0.00'')
   \<and> (k \<noteq> SalesPrice \<longrightarrow> save k (commitFormat v) = Inr ())"
  using commitFormat_parses [of v]
  by (auto simp: save_def isNaN_def commitFormat_def or_zero_def print_eval)

theorem save_rejects_only_low_sales_price_witness:
  "save SalesPrice (commitFormat ''9999'') = Inl BelowMinimum
   \<and> jslt (parseFloat (commitFormat ''9999'')) (Fin 10000)
   \<and> save Warranty (commitFormat ''500'') = Inr ()
   \<and> parseFloat ''.'' = NaN \<and> commitFormat ''.'' = ''0.00''"
  using save_rejects_only_low_sales_price [of SalesPrice "''9999''"]
    save_rejects_only_low_sales_price [of Warranty "''500''"]
    save_rejects_only_low_sales_price [of Warranty "''.''"]
  by (simp add: commitFormat_9999 save_9999 parse_eval)

section \<open>Formatting at the blur\<close>

lemma parse_1e21: "parseFloat ''1000000000000000000000'' = Fin (10 ^ 21)"
  by (simp add: parse_eval round_eval)

lemma shortest_1e21: "shortest_digits (10 ^ 21) 22 1 = (1, 1, 22)"
  by (subst shortest_digits.simps) (simp add: digit_candidates_def nearer_def round_eval)

lemma exp_1e21: "number_to_string_exp (10 ^ 21) = ''1e+21''"
proof -
  have fl: "nat \<lfloor>(10::rat) ^ 21\<rfloor> = 10 ^ 21" by simp
  have d: "length (show_nat (10 ^ 21)) = 22" by (simp add: show_nat.simps digit_char_def)
  show ?thesis
    unfolding number_to_string_exp_def fl d shortest_1e21
    by (simp add: show_nat.simps digit_char_def)
qed

lemma commitFormat_1e21: "commitFormat ''1000000000000000000000'' = ''1e+21''"
  using exp_1e21
  by (simp add: commitFormat_def or_zero_def parse_1e21 toFixed_def)

lemma numeric_not_space: "is_numeric_char c \<Longrightarrow> \<not> is_js_space c"
  by (auto simp: is_numeric_char_def is_digit_def is_js_space_def)

lemma parseFloat_canonical:
  assumes "list_all is_numeric_char v"
  shows "parseFloat v = NaN \<or> nonneg_num (parseFloat v)"
proof (cases v)
  case Nil
  then show ?thesis by (simp add: parseFloat_def)
next
  case (Cons c r)
  then have c: "is_numeric_char c" using assms by simp
  then have "c \<noteq> CHR ''-''" "c \<noteq> CHR ''+''"
    by (auto simp: is_numeric_char_def is_digit_def)
  then have "parseFloat v = parse_unsigned v"
    using Cons numeric_not_space [OF c] by (simp add: parseFloat_def)
  then show ?thesis using parse_unsigned_nonneg [of v] by simp
qed

lemma toFixed_2_small:
  "0 \<le> q \<Longrightarrow> q < 10 ^ 21 \<Longrightarrow> toFixed 2 (Fin q) = fixed_point 2 (cents q)"
  by (simp add: toFixed_def cents_def)

lemma commitFormat_unparsable: "parseFloat v = NaN \<Longrightarrow> commitFormat v = ''0.00''"
  by (simp add: commitFormat_def or_zero_def print_eval)

lemma commitFormat_matches:
  assumes "parseFloat v = NaN \<or> nonneg_num (parseFloat v)"
    and "jslt (or_zero (parseFloat v)) (Fin (10 ^ 21))"
  shows "matches_fixed2 (commitFormat v)"
proof (cases "parseFloat v")
  case (Fin q)
  then have q: "0 \<le> q" "q < 10 ^ 21"
    using assms by (auto simp: nonneg_num_def or_zero_def split: if_splits)
  have "or_zero (parseFloat v) = Fin q"
    using Fin by (auto simp: or_zero_def)
  then have "commitFormat v = fixed_point 2 (cents q)"
    using q by (simp only: commitFormat_def toFixed_2_small)
  then show ?thesis by (simp only: matches_fixed_point_2)
next
  case PInf
  then show ?thesis using assms(2) by (simp add: or_zero_def)
next
  case NInf
  then show ?thesis using assms(1) by (simp add: nonneg_num_def)
next
  case NaN
  then have "commitFormat v = fixed_point 2 (cents 0)"
    using toFixed_2_small [of 0] by (simp add: commitFormat_def or_zero_def)
  then show ?thesis by (simp only: matches_fixed_point_2)
qed

subsection \<open>Below and from \<open>10 ^ 21\<close>\<close>

lemma round_half_even_upper: "rat_of_int (round_half_even y) \<le> y + 1 / 2"
proof -
  define f where "f = \<lfloor>y\<rfloor>"
  have f: "rat_of_int f \<le> y" by (simp add: f_def)
  consider "y - rat_of_int f < 1 / 2" | "1 / 2 < y - rat_of_int f" | "y - rat_of_int f = 1 / 2"
    by linarith
  then show ?thesis
  proof cases
    case 1
    then have "round_half_even y = f" by (simp add: round_half_even_def f_def)
    then show ?thesis using f by simp
  next
    case 2
    then have "round_half_even y = f + 1" by (simp add: round_half_even_def f_def)
    then show ?thesis using 2 by simp
  next
    case 3
    then have "round_half_even y = f \<or> round_half_even y = f + 1"
      by (simp add: round_half_even_def f_def Let_def)
    then show ?thesis using 3 f by auto
  qed
qed

lemma pow2_le_one: "e \<le> 0 \<Longrightarrow> pow2 e \<le> 1"
  by (auto simp: pow2_def divide_le_eq)

lemma pow2_binade_le:
  assumes "1 \<le> q" "0 \<le> e" "e \<le> binade q"
  shows "pow2 e \<le> q"
proof -
  let ?n = "nat \<lfloor>q\<rfloor>"
  have n: "0 < ?n" using assms(1) by simp
  have b: "binade q = int (floorlog 2 ?n) - 1"
    using assms(1) by (simp add: binade_def)
  have "(2::nat) ^ (floorlog 2 ?n - 1) \<le> ?n"
    using floorlog_bounds [of ?n 2] n by simp
  moreover have "nat e \<le> floorlog 2 ?n - 1"
    using assms(2,3) b by simp
  ultimately have "(2::nat) ^ nat e \<le> ?n"
    by (meson le_trans one_le_numeral power_increasing)
  then have "rat_of_nat (2 ^ nat e) \<le> rat_of_nat ?n"
    by (simp only: of_nat_le_iff)
  moreover have "rat_of_nat ?n \<le> q"
    using assms(1) by simp
  moreover have "rat_of_nat (2 ^ nat e) = pow2 e"
    using assms(2) by (simp add: pow2_def)
  ultimately show ?thesis by linarith
qed

lemma round_double_pos_bound:
  assumes "0 < q"
  shows "\<exists>r. 0 \<le> r \<and> r \<le> q + (q + 1) / 2
     \<and> round_double_pos q = (if pow2 1024 \<le> r then PInf else Fin r)"
proof -
  define e where "e = max (binade q - 52) (- 1074)"
  define r where "r = rat_of_int (round_half_even (q / pow2 e)) * pow2 e"
  have pp: "0 < pow2 e" by (rule pow2_pos)
  have pe: "pow2 e \<le> q + 1"
  proof (cases "e \<le> 0")
    case True
    then have "pow2 e \<le> 1" by (rule pow2_le_one)
    then show ?thesis using assms by simp
  next
    case False
    then have e: "0 \<le> e" "e \<le> binade q" "0 < binade q" by (auto simp: e_def)
    have "1 \<le> q"
    proof (rule ccontr)
      assume "\<not> 1 \<le> q"
      then have "binade q \<le> 0" by (simp add: binade_def)
      then show False using e(3) by simp
    qed
    then have "pow2 e \<le> q" using e(1,2) by (rule pow2_binade_le)
    then show ?thesis by simp
  qed
  have "rat_of_int (round_half_even (q / pow2 e)) \<le> q / pow2 e + 1 / 2"
    by (rule round_half_even_upper)
  then have "r \<le> (q / pow2 e + 1 / 2) * pow2 e"
    unfolding r_def using pp by (simp only: mult_le_cancel_right_pos)
  also have "\<dots> = q + pow2 e / 2"
    using pp by (simp add: field_simps)
  finally have "r \<le> q + pow2 e / 2" .
  moreover have "pow2 e / 2 \<le> (q + 1) / 2" using pe by simp
  ultimately have up: "r \<le> q + (q + 1) / 2" by linarith
  have "0 \<le> q / pow2 e" using assms pp by simp
  then have "0 \<le> round_half_even (q / pow2 e)" by (rule round_half_even_nonneg)
  then have lo: "0 \<le> r" unfolding r_def using pp by simp
  have "round_double_pos q = (if pow2 1024 \<le> r then PInf else Fin r)"
    by (simp add: round_double_pos_def Let_def e_def r_def)
  then show ?thesis using up lo by blast
qed

lemma round_double_small:
  assumes "0 \<le> q" "q < 10 ^ 20"
  shows "\<exists>r. round_double q = Fin r \<and> 0 \<le> r \<and> r < 10 ^ 21"
proof (cases "q = 0")
  case True
  then show ?thesis by (simp add: round_double_def)
next
  case False
  then have q: "0 < q" using assms(1) by simp
  have big: "(10::rat) ^ 21 < pow2 1024" by (simp add: pow2_def)
  have a: "(q + 1) / 2 < 10 ^ 20" using assms by simp
  have "q + (q + 1) / 2 < 10 ^ 20 + 10 ^ 20" using assms(2) a by (rule add_strict_mono)
  also have "\<dots> < (10::rat) ^ 21" by simp
  finally have lim: "q + (q + 1) / 2 < 10 ^ 21" .
  obtain r where r: "0 \<le> r" "r \<le> q + (q + 1) / 2"
      "round_double_pos q = (if pow2 1024 \<le> r then PInf else Fin r)"
    using round_double_pos_bound [OF q] by blast
  have "r < 10 ^ 21" using r(2) lim by linarith
  moreover have "\<not> pow2 1024 \<le> r" using \<open>r < 10 ^ 21\<close> big by linarith
  ultimately show ?thesis using r(1,3) q by (simp add: round_double_def)
qed

lemma digit_val_le: "is_digit c \<Longrightarrow> digit_val c \<le> 9"
  by (auto simp: is_digit_def digit_val_def)

lemma nat_of_digits_snoc: "nat_of_digits (ds @ [c]) = 10 * nat_of_digits ds + digit_val c"
  by (simp add: nat_of_digits_def)

lemma nat_of_digits_bound: "list_all is_digit ds \<Longrightarrow> nat_of_digits ds < 10 ^ length ds"
proof (induction ds rule: rev_induct)
  case Nil
  then show ?case by (simp add: nat_of_digits_def)
next
  case (snoc c ds)
  then have "nat_of_digits ds < 10 ^ length ds" "digit_val c \<le> 9"
    by (simp_all add: digit_val_le)
  then show ?case by (simp add: nat_of_digits_snoc)
qed

lemma takeWhile_digits: "list_all is_digit (takeWhile is_digit s)"
  by (auto simp: list_all_iff dest: set_takeWhileD)

lemma parse_exponent_canonical: "list_all is_numeric_char r \<Longrightarrow> parse_exponent r = 0"
  by (cases r) (auto simp: parse_exponent_def is_numeric_char_def is_digit_def)

lemma canonical_tl: "list_all is_numeric_char s \<Longrightarrow> list_all is_numeric_char (tl s)"
  by (cases s) auto

lemma canonical_dropWhile:
  "list_all is_numeric_char s \<Longrightarrow> list_all is_numeric_char (dropWhile P s)"
  by (auto simp: list_all_iff dest: set_dropWhileD)

lemma canonical_not_Infinity: "list_all is_numeric_char s \<Longrightarrow> take 8 s \<noteq> ''Infinity''"
proof
  assume c: "list_all is_numeric_char s" and t: "take 8 s = ''Infinity''"
  have "CHR ''I'' \<in> set (take 8 s)" by (simp add: t)
  then have "CHR ''I'' \<in> set s" by (rule in_set_takeD)
  then have "is_numeric_char (CHR ''I'')" using c by (simp add: list_all_iff)
  then show False by (simp add: is_numeric_char_def is_digit_def)
qed

lemma parse_unsigned_canonical:
  assumes "list_all is_numeric_char s" "length (takeWhile is_digit s) \<le> 20"
  shows "parse_unsigned s = NaN \<or> (\<exists>r. parse_unsigned s = Fin r \<and> 0 \<le> r \<and> r < 10 ^ 21)"
proof -
  define ip where "ip = takeWhile is_digit s"
  define r1 where "r1 = dropWhile is_digit s"
  define has_dot where "has_dot = (r1 \<noteq> [] \<and> hd r1 = CHR ''.'')"
  define fp where "fp = (if has_dot then takeWhile is_digit (tl r1) else [])"
  define r2 where "r2 = (if has_dot then dropWhile is_digit (tl r1) else r1)"
  have "list_all is_numeric_char r1"
    unfolding r1_def using assms(1) by (rule canonical_dropWhile)
  then have "list_all is_numeric_char r2"
    unfolding r2_def by (simp add: canonical_dropWhile canonical_tl)
  then have ex: "parse_exponent r2 = 0" by (rule parse_exponent_canonical)
  have ipd: "list_all is_digit ip" unfolding ip_def by (rule takeWhile_digits)
  have fpd: "list_all is_digit fp" unfolding fp_def by (simp add: takeWhile_digits)
  have "nat_of_digits ip < 10 ^ length ip" using ipd by (rule nat_of_digits_bound)
  also have "\<dots> \<le> 10 ^ 20"
    using assms(2) unfolding ip_def by (intro power_increasing) simp_all
  finally have "nat_of_digits ip + 1 \<le> 10 ^ 20" by simp
  then have "rat_of_nat (nat_of_digits ip + 1) \<le> rat_of_nat (10 ^ 20)"
    by (simp only: of_nat_le_iff)
  then have ipb: "rat_of_nat (nat_of_digits ip) + 1 \<le> 10 ^ 20" by simp
  have "nat_of_digits fp < 10 ^ length fp" using fpd by (rule nat_of_digits_bound)
  then have "rat_of_nat (nat_of_digits fp) < rat_of_nat (10 ^ length fp)"
    by (simp only: of_nat_less_iff)
  then have fpb: "rat_of_nat (nat_of_digits fp) / 10 ^ length fp < 1" by simp
  define q where "q = rat_of_nat (nat_of_digits ip) + rat_of_nat (nat_of_digits fp) / 10 ^ length fp"
  have q: "0 \<le> q" by (simp add: q_def)
  have q': "q < 10 ^ 20" unfolding q_def using ipb fpb by linarith
  have p0: "pow10 0 = 1" by (simp add: pow10_def)
  have pu: "parse_unsigned s = (if ip = [] \<and> fp = [] then NaN else round_double q)"
    unfolding parse_unsigned_def Let_def q_def ip_def fp_def has_dot_def r1_def
    by (simp only: ex [unfolded r2_def has_dot_def r1_def]
        canonical_not_Infinity [OF assms(1)] if_False p0 mult_1_right)
  show ?thesis
    using pu round_double_small [OF q q'] by auto
qed

lemma parseFloat_canonical_eq:
  assumes "list_all is_numeric_char v" "v \<noteq> []"
  shows "parseFloat v = parse_unsigned v"
proof -
  obtain c r where v: "v = c # r" using assms(2) by (cases v) auto
  then have c: "is_numeric_char c" using assms(1) by simp
  then have "c \<noteq> CHR ''-''" "c \<noteq> CHR ''+''"
    by (auto simp: is_numeric_char_def is_digit_def)
  then show ?thesis
    using v numeric_not_space [OF c] by (simp add: parseFloat_def)
qed

lemma canonical_20_digits:
  assumes "list_all is_numeric_char v" "length (takeWhile is_digit v) \<le> 20"
  shows "jslt (or_zero (parseFloat v)) (Fin (10 ^ 21))"
proof (cases "v = []")
  case True
  then show ?thesis by (simp add: parseFloat_def or_zero_def)
next
  case False
  then have "parseFloat v = parse_unsigned v"
    using assms(1) by (simp add: parseFloat_canonical_eq)
  then show ?thesis
    using parse_unsigned_canonical [OF assms] by (auto simp: or_zero_def)
qed

lemma matches_fixed2_chars:
  assumes "matches_fixed2 s" "c \<in> set s"
  shows "is_numeric_char c"
proof -
  obtain i where i: "i < length s" "s ! i = c"
    using assms(2) by (auto simp: in_set_conv_nth)
  have d: "\<And>j. j < length s - 3 \<Longrightarrow> is_digit (s ! j)"
    using assms(1) by (simp add: matches_fixed2_def list_all_length)
  consider "i < length s - 3" | "i = length s - 3" | "i = length s - 2" | "i = length s - 1"
    using i(1) by linarith
  then show ?thesis
    using d i(2) assms(1) by cases (auto simp: matches_fixed2_def is_numeric_char_def)
qed

lemma number_to_string_exp_e: "CHR ''e'' \<in> set (number_to_string_exp x)"
proof -
  obtain s k n where "shortest_digits x (length (show_nat (nat \<lfloor>x\<rfloor>))) 1 = (s, k, n)"
    by (cases "shortest_digits x (length (show_nat (nat \<lfloor>x\<rfloor>))) 1") auto
  then show ?thesis by (simp add: number_to_string_exp_def)
qed

lemma commitFormat_large:
  assumes "nonneg_num (parseFloat v)" "\<not> jslt (or_zero (parseFloat v)) (Fin (10 ^ 21))"
  shows "\<not> matches_fixed2 (commitFormat v)"
proof (cases "parseFloat v")
  case (Fin q)
  then have q: "10 ^ 21 \<le> q"
    using assms by (auto simp: or_zero_def nonneg_num_def split: if_splits)
  then have "or_zero (parseFloat v) = Fin q" using Fin by (auto simp: or_zero_def)
  then have "commitFormat v = number_to_string_exp q"
    using q by (simp add: commitFormat_def toFixed_def)
  then have "CHR ''e'' \<in> set (commitFormat v)" by (simp add: number_to_string_exp_e)
  then show ?thesis
    using matches_fixed2_chars [of "commitFormat v" "CHR ''e''"]
    by (auto simp: is_numeric_char_def is_digit_def)
next
  case PInf
  then have "commitFormat v = ''Infinity''"
    by (simp add: commitFormat_def or_zero_def toFixed_def)
  then show ?thesis by (simp add: matches_fixed2_def is_digit_def)
next
  case NInf
  then show ?thesis using assms(1) by (simp add: nonneg_num_def)
next
  case NaN
  then show ?thesis using assms(1) by (simp add: nonneg_num_def)
qed

lemma parse_21_nines: "parseFloat ''999999999999999999999'' = Fin (10 ^ 21)"
  by (simp add: parse_eval round_eval)

lemma commitFormat_21_nines: "commitFormat ''999999999999999999999'' = ''1e+21''"
  using exp_1e21
  by (simp add: commitFormat_def or_zero_def parse_21_nines toFixed_def)

text \<open>
  C9, as the code has it. A string of digits and points never parses to a negative
  Number. For an input that parses to NaN or to a Number that is not negative, the
  formatted value matches \<^verbatim>\<open>^\d+\.\d{2}$\<close> (digits, a point, two digits, no
  grouping) exactly when the double that \<^verbatim>\<open>parseFloat\<close> returns, zero for NaN, is below
  \<open>10 ^ 21\<close>. That is so for every string of digits and points with at most 20
  digits before the point. Input that does not parse is formatted as \<^verbatim>\<open>0.00\<close>.
\<close>

theorem commitFormat_two_decimals_below_1e21:
  "(list_all is_numeric_char v \<longrightarrow> parseFloat v = NaN \<or> nonneg_num (parseFloat v))
   \<and> (parseFloat v = NaN \<or> nonneg_num (parseFloat v) \<longrightarrow>
        matches_fixed2 (commitFormat v) = jslt (or_zero (parseFloat v)) (Fin (10 ^ 21)))
   \<and> (list_all is_numeric_char v \<and> length (takeWhile is_digit v) \<le> 20 \<longrightarrow>
        matches_fixed2 (commitFormat v))
   \<and> (parseFloat v = NaN \<longrightarrow> commitFormat v = ''0.00'')"
proof -
  have a: "list_all is_numeric_char v \<Longrightarrow> parseFloat v = NaN \<or> nonneg_num (parseFloat v)"
    by (rule parseFloat_canonical)
  have b: "matches_fixed2 (commitFormat v) = jslt (or_zero (parseFloat v)) (Fin (10 ^ 21))"
    if h: "parseFloat v = NaN \<or> nonneg_num (parseFloat v)"
  proof (cases "jslt (or_zero (parseFloat v)) (Fin (10 ^ 21))")
    case True
    then show ?thesis using h commitFormat_matches [of v] by simp
  next
    case False
    then have "nonneg_num (parseFloat v)"
      using h by (auto simp: or_zero_def)
    then show ?thesis using False commitFormat_large [of v] by simp
  qed
  have c: "list_all is_numeric_char v \<and> length (takeWhile is_digit v) \<le> 20 \<Longrightarrow>
        matches_fixed2 (commitFormat v)"
    using a canonical_20_digits [of v] commitFormat_matches [of v] by blast
  show ?thesis
    using a b c commitFormat_unparsable [of v] by blast
qed

theorem commitFormat_two_decimals_below_1e21_witness:
  "list_all is_numeric_char ''9999'' \<and> length (takeWhile is_digit ''9999'') \<le> 20
   \<and> nonneg_num (parseFloat ''9999'')
   \<and> jslt (or_zero (parseFloat ''9999'')) (Fin (10 ^ 21))
   \<and> matches_fixed2 (commitFormat ''9999'')
   \<and> list_all is_numeric_char ''999999999999999999999''
   \<and> nonneg_num (parseFloat ''999999999999999999999'')
   \<and> \<not> jslt (or_zero (parseFloat ''999999999999999999999'')) (Fin (10 ^ 21))
   \<and> \<not> matches_fixed2 (commitFormat ''999999999999999999999'')
   \<and> commitFormat ''999999999999999999999'' = ''1e+21''
   \<and> parseFloat [] = NaN \<and> commitFormat [] = ''0.00''"
proof -
  have p: "parseFloat ''9999'' = Fin 9999" "parseFloat [] = NaN"
    by (simp_all add: parse_eval round_eval)
  show ?thesis
    using commitFormat_two_decimals_below_1e21 [of "''9999''"]
      commitFormat_two_decimals_below_1e21 [of "''999999999999999999999''"]
      commitFormat_two_decimals_below_1e21 [of "[]"]
    by (simp add: p parse_21_nines commitFormat_21_nines is_numeric_char_def is_digit_def
        or_zero_def nonneg_num_def)
qed

text \<open>
  C9 as stated fails from \<open>10 ^ 21\<close> on, where \<^verbatim>\<open>toFixed\<close> answers in exponential
  notation: the 22 digits of \<open>10 ^ 21\<close> pass the sanitising unchanged and are formatted
  as \<^verbatim>\<open>1e+21\<close>.
\<close>

theorem commitFormat_exponential_counterexample:
  "list_all is_numeric_char ''1000000000000000000000''
   \<and> parseCurrencyInput ''1000000000000000000000'' = ''1000000000000000000000''
   \<and> commitFormat ''1000000000000000000000'' = ''1e+21''
   \<and> \<not> matches_fixed2 (commitFormat ''1000000000000000000000'')"
proof -
  have "strip_non_numeric ''1000000000000000000000'' = ''1000000000000000000000''"
    by (simp add: strip_non_numeric_def is_numeric_char_def is_digit_def)
  then have "parseCurrencyInput ''1000000000000000000000'' = ''1000000000000000000000''"
    by (simp add: parseCurrencyInput_no_point)
  then show ?thesis
    by (simp add: commitFormat_1e21 matches_fixed2_def is_numeric_char_def is_digit_def)
qed

section \<open>The total\<close>


















end
